theory Spec2Isabelle
  imports Main "HOL-Library.Word" "HOL-Library.AList" "HOL-Library.Char_ord"
    "HOL-Library.List_Lexorder"
begin

section \<open>Data model\<close>

text \<open>
  The incremental build pipeline of the site generator: the post service
  (\<open>postServiceImpl.Process\<close>) and the watch-mode change classifier
  (\<open>Builder.buildSinglePost\<close>). Structs are records, interfaces are records of
  functions, and every package that the two source files import but do not define
  (\<open>utils\<close>, \<open>cache\<close>, the Markdown library, \<open>strings\<close>, \<open>filepath\<close>) enters
  as a parameter.
\<close>

subsection \<open>Time stamps and file information\<close>

text \<open>A \<open>time.Time\<close> is the number of nanoseconds since the Unix epoch.\<close>

type_synonym time = int

definition Unix :: "time \<Rightarrow> int" where
  "Unix t = t div 1000000000"

definition After :: "time \<Rightarrow> time \<Rightarrow> bool" where
  "After t u = (u < t)"

text \<open>The zero \<open>time.Time\<close> (January 1, year 1, UTC).\<close>

definition zeroTime :: time where
  "zeroTime = - 62135596800 * 1000000000"

record FileInfo =
  fModTime :: time
  fSize :: int
  fIsDir :: bool

text \<open>The three outcomes of \<open>os.Stat\<close> that the code tells apart.\<close>

datatype stat_result = StatOk FileInfo | StatNotExist | StatError

subsection \<open>Front matter\<close>

typedecl float64

datatype fmval =
    VBool bool
  | VInt int
  | VFloat float64
  | VString string
  | VList "fmval list"

type_synonym frontmatter = "string \<rightharpoonup> fmval"

subsection \<open>Posts\<close>

record TOCEntry =
  tocID :: string
  tocText :: string
  tocLevel :: int

text \<open>\<open>models.PostMetadata\<close>\<close>

record PostMetadata =
  Title :: string
  Link :: string
  Weight :: int
  Version :: string
  DateObj :: time
  ReadingTime :: int
  Description :: string
  Tags :: "string list"
  Pinned :: bool
  Draft :: bool

text \<open>The zero value of \<open>models.PostMetadata\<close>.\<close>

definition zeroPost :: PostMetadata where
  "zeroPost = \<lparr>Title = [], Link = [], Weight = 0, Version = [], DateObj = zeroTime,
     ReadingTime = 0, Description = [], Tags = [], Pinned = False, Draft = False\<rparr>"

text \<open>\<open>cache.PostMeta\<close>, with the fields the two source files read or write.\<close>

record PostMeta =
  PostID :: string
  Path :: string
  ModTime :: int
  ContentHash :: string
  BodyHash :: string
  mTitle :: string
  mDate :: time
  mTags :: "string list"
  mReadingTime :: int
  mDescription :: string
  mLink :: string
  mPinned :: bool
  mWeight :: int
  mDraft :: bool
  Meta :: frontmatter
  TOC :: "TOCEntry list"
  mVersion :: string
  SSRInputHashes :: "string list"

text \<open>\<open>cache.SearchRecord\<close> and \<open>cache.Dependencies\<close>\<close>

record SearchRecord =
  sTitle :: string
  sNormalizedTitle :: string
  BM25Data :: "string \<rightharpoonup> int"
  sDocLen :: int
  sContent :: string
  sNormalizedTags :: "string list"

record Dependencies =
  dTags :: "string list"

text \<open>\<open>models.PostRecord\<close> and \<open>models.IndexedPost\<close>\<close>

record PostRecord =
  ID :: int
  rTitle :: string
  rNormalizedTitle :: string
  rLink :: string
  rDescription :: string
  rTags :: "string list"
  rNormalizedTags :: "string list"
  rContent :: string
  rVersion :: string

record IndexedPost =
  Record :: PostRecord
  WordFreqs :: "string \<rightharpoonup> int"
  DocLen :: int

definition zeroRecord :: PostRecord where
  "zeroRecord = \<lparr>ID = 0, rTitle = [], rNormalizedTitle = [], rLink = [],
     rDescription = [], rTags = [], rNormalizedTags = [], rContent = [], rVersion = []\<rparr>"

definition zeroIndexedPost :: IndexedPost where
  "zeroIndexedPost = \<lparr>Record = zeroRecord, WordFreqs = Map.empty, DocLen = 0\<rparr>"

subsection \<open>Results of fallible calls\<close>

datatype 'a result = Failed | Ok 'a

subsection \<open>The cache service\<close>

text \<open>
  The calls that change the cache. The state of the cache is the list of such calls made
  so far, oldest first: every read below is a function of that history, so a read after a
  write can see the write, and a theorem can say which writes a build made.
\<close>

datatype cache_call =
    DeletePost string
  | SetSocialCardHash string string
  | StoreHTMLForPost PostMeta string
  | BatchCommit "PostMeta list" "(string \<times> SearchRecord) list" "(string \<times> Dependencies) list"

text \<open>
  The \<open>CacheService\<close> interface, as the two source files use it. \<open>Ok None\<close> is a nil
  pointer returned with a nil error. \<open>ListAllPosts\<close> is \<open>None\<close> when the service does
  not implement the optional lister interface. \<open>StoreHTMLForPost\<close> receives a pointer
  and may fill in fields of the record: it returns the record as it leaves it.
\<close>

record CacheService =
  GetPostByPath :: "cache_call list \<Rightarrow> string \<Rightarrow> PostMeta option result"
  GetPost :: "cache_call list \<Rightarrow> string \<Rightarrow> PostMeta option result"
  ListAllPosts :: "(cache_call list \<Rightarrow> string list) option"
  GetPostsByIDs :: "cache_call list \<Rightarrow> string list \<Rightarrow> PostMeta list"
  GetSocialCardHash :: "cache_call list \<Rightarrow> string \<Rightarrow> string"
  SetSocialCardHashOk :: "cache_call list \<Rightarrow> string \<Rightarrow> string \<Rightarrow> bool"
  GetHTMLContent :: "cache_call list \<Rightarrow> PostMeta \<Rightarrow> string option result"
  GetSearchRecord :: "cache_call list \<Rightarrow> string \<Rightarrow> SearchRecord option result"
  StoreHTMLForPostRes :: "cache_call list \<Rightarrow> PostMeta \<Rightarrow> string \<Rightarrow> PostMeta \<times> bool"
  BatchCommitOk :: "cache_call list \<Rightarrow> PostMeta list \<Rightarrow> bool"

subsection \<open>Log entries\<close>

datatype level = Info | Warn | Error

type_synonym log_entry = "level \<times> string \<times> string"

section \<open>The change classifier: \<open>Builder.buildSinglePost\<close>\<close>

text \<open>
  What \<open>buildSinglePost\<close> reads of the \<open>Builder\<close>: the content directory, the source
  file system, the Markdown parser with its front-matter extension, the two hashers of
  package \<open>utils\<close>, \<open>utils.SafeRel\<close>, the cache service with its current history, and
  whether \<open>b.Build\<close> and \<open>postService.ProcessSingle\<close> return without an error.
\<close>

record Builder =
  bContentDir :: string
  bReadFile :: "string \<Rightarrow> string option"
  bFrontMatter :: "string \<Rightarrow> string \<Rightarrow> frontmatter"
  bGetFrontmatterHash :: "frontmatter \<Rightarrow> string"
  bGetBodyHash :: "string \<Rightarrow> string"
  bSafeRel :: "string \<Rightarrow> string \<Rightarrow> string"
  bCacheService :: "CacheService option"
  bCacheHistory :: "cache_call list"
  bBuildOk :: bool
  bProcessSingleOk :: "string \<Rightarrow> bool"

text \<open>What the function does, in order: log lines and calls on its collaborators.\<close>

datatype event =
    Log level string
  | Build
  | ProcessSingle string
  | SaveCaches

text \<open>The cached entry of a path: \<open>exists\<close> is true exactly when this is \<open>Some\<close>.\<close>

definition cachedEntry :: "Builder \<Rightarrow> string \<Rightarrow> PostMeta option" where
  "cachedEntry b relPath =
     (case bCacheService b of
        None \<Rightarrow> None
      | Some c \<Rightarrow>
          (case GetPostByPath c (bCacheHistory b) relPath of
             Ok (Some m) \<Rightarrow> Some m
           | _ \<Rightarrow> None))"

text \<open>A full build followed, when it succeeds, by \<open>SaveCaches\<close>.\<close>

definition fullBuild :: "Builder \<Rightarrow> string \<Rightarrow> event list" where
  "fullBuild b msg =
     [Log Info msg, Build] @
     (if bBuildOk b then [SaveCaches] else [Log Error ''Build failed''])"

definition buildSinglePost :: "Builder \<Rightarrow> string \<Rightarrow> event list" where
  "buildSinglePost b path =
     (case bReadFile b path of
        None \<Rightarrow>
          [Log Error ''Error reading file'', Build] @
          (if bBuildOk b then [] else [Log Error ''Full build failed''])
      | Some source \<Rightarrow>
          (let metaData = bFrontMatter b path source;
               newFrontmatterHash = bGetFrontmatterHash b metaData;
               newBodyHash = bGetBodyHash b source;
               relPath = bSafeRel b (bContentDir b) path;
               entry = cachedEntry b relPath;
               exists = (entry \<noteq> None);
               cachedFrontmatterHash = (case entry of None \<Rightarrow> [] | Some m \<Rightarrow> ContentHash m);
               cachedBodyHash = (case entry of None \<Rightarrow> [] | Some m \<Rightarrow> BodyHash m);
               frontmatterChanged = (exists \<and> cachedFrontmatterHash \<noteq> newFrontmatterHash);
               bodyOnlyChanged = (exists \<and> cachedFrontmatterHash = newFrontmatterHash
                                  \<and> cachedBodyHash \<noteq> newBodyHash)
           in if \<not> exists then
                fullBuild b ''New post detected, running full build...''
              else if frontmatterChanged then
                fullBuild b ''Frontmatter changed, running full build...''
              else if bodyOnlyChanged \<or> cachedBodyHash = [] then
                [Log Info ''Content-only change detected, rebuilding single post...'',
                 ProcessSingle path] @
                (if bProcessSingleOk b path then [SaveCaches]
                 else [Log Error ''Failed to process single post'', Build] @
                      (if bBuildOk b then [SaveCaches] else [Log Error ''Build failed'']))
              else
                [Log Info ''No changes detected, skipping...'']))"

text \<open>The rebuilds of a trace: its calls of \<open>Build\<close> and \<open>ProcessSingle\<close>.\<close>

fun isRebuild :: "event \<Rightarrow> bool" where
  "isRebuild Build = True"
| "isRebuild (ProcessSingle p) = True"
| "isRebuild e = False"

definition rebuilds :: "event list \<Rightarrow> event list" where
  "rebuilds tr = filter isRebuild tr"

section \<open>The post service: \<open>postServiceImpl.Process\<close>\<close>

subsection \<open>Strings\<close>

text \<open>\<open>strings.HasPrefix\<close>, \<open>HasSuffix\<close>, \<open>Contains\<close>, \<open>TrimPrefix\<close>, \<open>TrimSuffix\<close>
  and \<open>strings.Replace(s, old, new, 1)\<close>, on byte strings.\<close>

fun HasPrefix :: "string \<Rightarrow> string \<Rightarrow> bool" where
  "HasPrefix s [] = True"
| "HasPrefix [] (p # ps) = False"
| "HasPrefix (c # cs) (p # ps) = (c = p \<and> HasPrefix cs ps)"

definition HasSuffix :: "string \<Rightarrow> string \<Rightarrow> bool" where
  "HasSuffix s suf = HasPrefix (rev s) (rev suf)"

fun Contains :: "string \<Rightarrow> string \<Rightarrow> bool" where
  "Contains [] sub = (sub = [])"
| "Contains (c # cs) sub = (HasPrefix (c # cs) sub \<or> Contains cs sub)"

definition TrimPrefix :: "string \<Rightarrow> string \<Rightarrow> string" where
  "TrimPrefix s pre = (if HasPrefix s pre then drop (length pre) s else s)"

definition TrimSuffix :: "string \<Rightarrow> string \<Rightarrow> string" where
  "TrimSuffix s suf = (if HasSuffix s suf then take (length s - length suf) s else s)"

fun Replace1 :: "string \<Rightarrow> string \<Rightarrow> string \<Rightarrow> string" where
  "Replace1 [] old new = (if old = [] then new else [])"
| "Replace1 (c # cs) old new =
     (if HasPrefix (c # cs) old then new @ drop (length old) (c # cs)
      else c # Replace1 cs old new)"

subsection \<open>Configuration and parameters\<close>

record VersionCfg =
  vName :: string
  IsLatest :: bool

record Config =
  ContentDir :: string
  OutputDir :: string
  BaseURL :: string
  BuildVersion :: string
  SiteTitle :: string
  IncludeDrafts :: bool
  CompressImages :: bool
  RawMarkdown :: bool
  Versions :: "VersionCfg list"

typedecl TreeNode
typedecl VersionMeta

text \<open>
  The functions of packages outside the two source files: \<open>utils\<close>, \<open>cache\<close>,
  \<open>search\<close>, the configuration's methods, and the parts of \<open>strings\<close>, \<open>filepath\<close>,
  \<open>time\<close> and \<open>math\<close> that depend on Unicode, the operating system or floating point.
  \<open>ReadingTimeOf n\<close> is \<open>int(math.Ceil(float64(n) / wordsPerMinute))\<close>.
\<close>

record Lib =
  SafeRel :: "string \<Rightarrow> string \<Rightarrow> string"
  GetVersionFromPath :: "string \<Rightarrow> string"
  GetBodyHash :: "string \<Rightarrow> string"
  GetFrontmatterHash :: "frontmatter \<Rightarrow> string"
  GeneratePostID :: "string \<Rightarrow> string \<Rightarrow> string"
  GetString :: "frontmatter \<Rightarrow> string \<Rightarrow> string"
  GetSlice :: "frontmatter \<Rightarrow> string \<Rightarrow> string list"
  GetBool :: "frontmatter \<Rightarrow> string \<Rightarrow> bool"
  BuildURL :: "string \<Rightarrow> string \<Rightarrow> string \<Rightarrow> string"
  ReplaceToWebP :: "string \<Rightarrow> string"
  BuildSiteTree :: "PostMetadata list \<Rightarrow> string \<Rightarrow> TreeNode list"
  FindPrevNext :: "PostMetadata \<Rightarrow> PostMetadata list \<Rightarrow> PostMetadata option \<times> PostMetadata option"
  IsOutdatedVersion :: "string \<Rightarrow> bool"
  GetVersionsMetadata :: "string \<Rightarrow> string \<Rightarrow> VersionMeta list"
  Analyze :: "string \<Rightarrow> string list"
  ToLower :: "string \<Rightarrow> string"
  TrimSpace :: "string \<Rightarrow> string"
  Fields :: "string \<Rightarrow> string list"
  Join :: "string list \<Rightarrow> string"
  Ext :: "string \<Rightarrow> string"
  Dir :: "string \<Rightarrow> string"
  ToSlash :: "string \<Rightarrow> string"
  ParseDate :: "string \<Rightarrow> time"
  TruncFloat :: "float64 \<Rightarrow> int"
  ReadingTimeOf :: "nat \<Rightarrow> int"

text \<open>Modelled from the spec: \<open>utils.MaxFileSize\<close> is not in the source files; the
  spec gives 10 MiB.\<close>

definition MaxFileSize :: int where
  "MaxFileSize = 10 * 1024 * 1024"

text \<open>What the Markdown library hands back for one source: the front matter, the table
  of contents, the hashes of server-side rendered fragments, the diagram pairs (\<open>None\<close>
  is a nil slice) and the plain text of the document.\<close>

record ParsedDoc =
  docMeta :: frontmatter
  docTOC :: "TOCEntry list"
  docSSRHashes :: "string list"
  docD2Pairs :: "(string \<times> string) list option"
  docPlainText :: string

text \<open>A node of the destination file system.\<close>

record fsnode =
  nIsDir :: bool
  nModTime :: time
  nContent :: string

text \<open>
  The fields of \<open>postServiceImpl\<close>. The source file system is read only; \<open>os.Stat\<close>
  looks at the operating system's tree, which the workers do not write (they write to
  \<open>destFs\<close>, part of the build state below, which starts as \<open>destInit\<close>).
  \<open>MkdirAllOk\<close> and \<open>WriteFileOk\<close> say whether the call on \<open>destFs\<close> succeeds, and
  \<open>now\<close> is the time stamp it leaves.
  \<open>srcWalk\<close> is the sequence of callbacks of \<open>afero.Walk\<close>: a path, and whether the
  walk reports an error for it.
\<close>

record Service =
  cfg :: Config
  cache :: "CacheService option"
  srcWalk :: "(string \<times> bool) list"
  srcWalkOk :: bool
  srcStat :: "string \<Rightarrow> FileInfo option"
  srcReadFile :: "string \<Rightarrow> string option"
  osStat :: "string \<Rightarrow> stat_result"
  MkdirAllOk :: "string \<Rightarrow> bool"
  WriteFileOk :: "string \<Rightarrow> bool"
  now :: time
  destInit :: "string \<rightharpoonup> fsnode"
  mdParse :: "string \<Rightarrow> string \<Rightarrow> ParsedDoc"
  mdRender :: "string \<Rightarrow> ParsedDoc \<Rightarrow> string option"
  ReplaceD2 :: "string \<Rightarrow> (string \<times> string) list \<Rightarrow> string"
  RenderMath :: "string \<Rightarrow> string \<times> string list"

record Flags =
  shouldForce :: bool
  forceSocialRebuild :: bool
  outputMissing :: bool

subsection \<open>The state shared by the workers\<close>

record PageData =
  pTitle :: string
  pDescription :: string
  pContent :: string
  pMeta :: frontmatter
  pBaseURL :: string
  pBuildVersion :: string
  pTabTitle :: string
  pPermalink :: string
  pImage :: string
  pTOC :: "TOCEntry list"
  pCurrentVersion :: string
  pIsOutdated :: bool
  pVersions :: "VersionMeta list"
  pWeight :: int
  pSiteTree :: "TreeNode list"
  pPrevPage :: "PostMetadata option"
  pNextPage :: "PostMetadata option"

record RenderContext =
  DestPath :: string
  Data :: PageData
  rcVersion :: string

definition zeroPageData :: PageData where
  "zeroPageData = \<lparr>pTitle = [], pDescription = [], pContent = [], pMeta = Map.empty,
     pBaseURL = [], pBuildVersion = [], pTabTitle = [], pPermalink = [], pImage = [],
     pTOC = [], pCurrentVersion = [], pIsOutdated = False, pVersions = [], pWeight = 0,
     pSiteTree = [], pPrevPage = None, pNextPage = None\<rparr>"

definition zeroRenderContext :: RenderContext where
  "zeroRenderContext = \<lparr>DestPath = [], Data = zeroPageData, rcVersion = []\<rparr>"

record socialCardTask =
  tPath :: string
  tRelPath :: string
  tCardDestPath :: string
  tMetaData :: frontmatter
  tFrontmatterHash :: string

text \<open>
  The variables of \<open>Process\<close> that the workers share, the destination file system, the
  history of the cache, the log, the three counters of the metrics, and the tasks
  submitted to the card pool. \<open>indexedPostIdx\<close> and \<open>processedCount\<close> are \<open>int32\<close>.
  \<open>allMetadataMap\<close> is a \<open>sync.Map\<close>: it is kept as an association list with one entry
  for each key, and \<open>Range\<close> visits it in the order of first insertion (Go leaves the
  order open, and no statement below depends on it). \<open>assigned\<close> is not a variable of
  the code: it records the values that \<open>atomic.AddInt32\<close> has returned, as \<open>int\<close>, in
  the order of the calls.
\<close>

record BuildState =
  allMetadataMap :: "(string \<times> PostMetadata) list"
  newPostsMeta :: "PostMeta list"
  newSearchRecords :: "(string \<times> SearchRecord) list"
  newDeps :: "(string \<times> Dependencies) list"
  indexedPosts :: "IndexedPost list"
  indexedPostIdx :: "32 word"
  assigned :: "int list"
  renderQueue :: "RenderContext list"
  cardTasks :: "socialCardTask list"
  anyPostChanged :: bool
  processedCount :: "32 word"
  destFs :: "string \<rightharpoonup> fsnode"
  cacheCalls :: "cache_call list"
  logs :: "log_entry list"
  cacheHits :: nat
  cacheMisses :: nat
  postsProcessed :: nat

definition logMsg :: "level \<Rightarrow> string \<Rightarrow> string \<Rightarrow> BuildState \<Rightarrow> BuildState" where
  "logMsg lv msg p st = st\<lparr>logs := logs st @ [(lv, msg, p)]\<rparr>"

definition MkdirAll :: "Service \<Rightarrow> string \<Rightarrow> string \<Rightarrow> BuildState \<Rightarrow> BuildState" where
  "MkdirAll s msg d st =
     (if MkdirAllOk s d then
        (case destFs st d of
           Some n \<Rightarrow> st
         | None \<Rightarrow> st\<lparr>destFs := (destFs st)(d \<mapsto> \<lparr>nIsDir = True, nModTime = now s, nContent = []\<rparr>)\<rparr>)
      else logMsg Error msg d st)"

definition WriteFile :: "Service \<Rightarrow> string \<Rightarrow> string \<Rightarrow> string \<Rightarrow> BuildState \<Rightarrow> BuildState" where
  "WriteFile s msg p data st =
     (if WriteFileOk s p then
        st\<lparr>destFs := (destFs st)(p \<mapsto> \<lparr>nIsDir = False, nModTime = now s, nContent = data\<rparr>)\<rparr>
      else logMsg Error msg p st)"

subsection \<open>Paths of one post\<close>

record Paths =
  relPath :: string
  htmlRelPath :: string
  cleanHtmlRelPath :: string
  destPath :: string

definition derivePaths :: "Service \<Rightarrow> Lib \<Rightarrow> string \<Rightarrow> string \<Rightarrow> Paths" where
  "derivePaths s lib path version =
     (let rel = SafeRel lib (ContentDir (cfg s)) path;
          html = ToLower lib (Replace1 rel ''.md'' ''.html'');
          clean = (if version \<noteq> [] then TrimPrefix html (ToLower lib version @ ''/'') else html);
          dest = (if version \<noteq> [] then Join lib [OutputDir (cfg s), version, clean]
                  else Join lib [OutputDir (cfg s), html])
      in \<lparr>relPath = rel, htmlRelPath = html, cleanHtmlRelPath = clean, destPath = dest\<rparr>)"

definition mdDestPathOf :: "Lib \<Rightarrow> string \<Rightarrow> string" where
  "mdDestPathOf lib dest = take (length dest - length (Ext lib dest)) dest @ ''.md''"

subsection \<open>The cache probe (lines 196 to 233)\<close>

text \<open>The candidate: the entry \<open>GetPostByPath\<close> returns with a nil error.\<close>

definition candidate :: "Service \<Rightarrow> cache_call list \<Rightarrow> string \<Rightarrow> PostMeta option" where
  "candidate s h rel =
     (case cache s of
        None \<Rightarrow> None
      | Some c \<Rightarrow> (case GetPostByPath c h rel of Ok (Some m) \<Rightarrow> Some m | _ \<Rightarrow> None))"

text \<open>\<open>info\<close> and \<open>exists\<close> after the first block: the source is stat'ed only when
  there is a candidate, and a source newer than the cached \<open>ModTime\<close> (in whole seconds)
  clears \<open>exists\<close>.\<close>

definition firstInfo :: "Service \<Rightarrow> string \<Rightarrow> PostMeta option \<Rightarrow> FileInfo option" where
  "firstInfo s path cm = (case cm of None \<Rightarrow> None | Some m \<Rightarrow> srcStat s path)"

definition existsByMtime :: "PostMeta option \<Rightarrow> FileInfo option \<Rightarrow> bool" where
  "existsByMtime cm info0 =
     (case cm of
        None \<Rightarrow> False
      | Some m \<Rightarrow> (case info0 of None \<Rightarrow> True | Some i \<Rightarrow> \<not> (ModTime m < Unix (fModTime i))))"

definition existsByBody :: "PostMeta option \<Rightarrow> bool \<Rightarrow> string \<Rightarrow> bool" where
  "existsByBody cm exists0 bodyHash =
     (case cm of
        None \<Rightarrow> exists0
      | Some m \<Rightarrow> (if exists0 \<and> BodyHash m \<noteq> [] \<and> BodyHash m \<noteq> bodyHash then False else exists0))"

datatype probe =
    Oversize FileInfo
  | Probed "PostMeta option" "FileInfo option" string string bool

definition cacheProbe :: "Service \<Rightarrow> Lib \<Rightarrow> Flags \<Rightarrow> cache_call list \<Rightarrow> string \<Rightarrow> string \<Rightarrow> probe" where
  "cacheProbe s lib fl h path rel =
     (let cm = candidate s h rel;
          info0 = firstInfo s path cm;
          exists0 = existsByMtime cm info0;
          info = (case info0 of None \<Rightarrow> srcStat s path | Some i \<Rightarrow> Some i)
      in case info of
           None \<Rightarrow>
             (let source = (case srcReadFile s path of None \<Rightarrow> [] | Some b \<Rightarrow> b);
                  bodyHash = GetBodyHash lib source
              in Probed cm info source bodyHash (existsByBody cm exists0 bodyHash \<and> \<not> shouldForce fl))
         | Some i \<Rightarrow>
             if MaxFileSize < fSize i then Oversize i
             else
               (let source = (case srcReadFile s path of None \<Rightarrow> [] | Some b \<Rightarrow> b);
                    bodyHash = GetBodyHash lib source
                in Probed cm info source bodyHash (existsByBody cm exists0 bodyHash \<and> \<not> shouldForce fl)))"

subsection \<open>Loading the cached artefacts (lines 235 to 264)\<close>

definition cachedHashOf :: "Service \<Rightarrow> cache_call list \<Rightarrow> string \<Rightarrow> PostMeta option \<Rightarrow> bool \<Rightarrow> string" where
  "cachedHashOf s h rel cm useCache =
     (case cache s of
        Some c \<Rightarrow>
          if \<not> useCache then GetSocialCardHash c h rel
          else (case cm of Some m \<Rightarrow> ContentHash m | None \<Rightarrow> [])
      | None \<Rightarrow>
          if useCache then (case cm of Some m \<Rightarrow> ContentHash m | None \<Rightarrow> []) else [])"

text \<open>A hit survives only if the HTML and the search record both load: the result is
  \<open>Some\<close> exactly when \<open>useCache\<close> is still true at line 266.\<close>

definition loadCached :: "Service \<Rightarrow> cache_call list \<Rightarrow> PostMeta option \<Rightarrow> bool \<Rightarrow>
    (PostMeta \<times> string \<times> SearchRecord) option" where
  "loadCached s h cm useCache =
     (if \<not> useCache then None
      else
        (case cache s of
           None \<Rightarrow> None
         | Some c \<Rightarrow>
             (case cm of
                None \<Rightarrow> None
              | Some m \<Rightarrow>
                  (case GetHTMLContent c h m of
                     Ok (Some html) \<Rightarrow>
                       (case GetSearchRecord c h (PostID m) of
                          Ok (Some sr) \<Rightarrow> Some (m, html, sr)
                        | _ \<Rightarrow> None)
                   | _ \<Rightarrow> None))))"

subsection \<open>The content of a post (lines 266 to 406)\<close>

record Content =
  htmlContent :: string
  metaData :: frontmatter
  post :: PostMetadata
  searchRecord :: PostRecord
  wordFreqs :: "string \<rightharpoonup> int"
  docLen :: int
  toc :: "TOCEntry list"
  frontmatterHash :: string
  plainText :: string
  ssrHashes :: "string list"

definition hitContent :: "BuildState \<Rightarrow> Paths \<Rightarrow> PostMeta \<Rightarrow> string \<Rightarrow> SearchRecord \<Rightarrow> Content" where
  "hitContent st p m html sr =
     \<lparr>htmlContent = html,
      metaData = Meta m,
      post = (case map_of (allMetadataMap st) (mLink m) of Some cp \<Rightarrow> cp | None \<Rightarrow> zeroPost),
      searchRecord = \<lparr>ID = 0, rTitle = sTitle sr, rNormalizedTitle = sNormalizedTitle sr,
        rLink = htmlRelPath p, rDescription = mDescription m, rTags = mTags m,
        rNormalizedTags = sNormalizedTags sr, rContent = sContent sr, rVersion = mVersion m\<rparr>,
      wordFreqs = BM25Data sr,
      docLen = sDocLen sr,
      toc = TOC m,
      frontmatterHash = ContentHash m,
      plainText = [],
      ssrHashes = SSRInputHashes m\<rparr>"

text \<open>The raw-source mirror written on a miss (lines 298 to 308).\<close>

definition writeRawOnMiss :: "Service \<Rightarrow> Lib \<Rightarrow> Paths \<Rightarrow> string \<Rightarrow> BuildState \<Rightarrow> BuildState" where
  "writeRawOnMiss s lib p source st =
     (if RawMarkdown (cfg s) then
        (let mdDestPath = mdDestPathOf lib (destPath p)
         in WriteFile s ''Failed to write markdown file'' mdDestPath source
              (MkdirAll s ''Failed to create markdown directory'' (Dir lib mdDestPath) st))
      else st)"

definition countWord :: "(string \<rightharpoonup> int) \<Rightarrow> string \<Rightarrow> (string \<rightharpoonup> int)" where
  "countWord m w =
     (if 2 \<le> length w then m(w \<mapsto> (case m w of None \<Rightarrow> 1 | Some n \<Rightarrow> n + 1)) else m)"

definition hasMath :: "string \<Rightarrow> bool" where
  "hasMath source = (Contains source ''$'' \<or> Contains source [CHR 0x5C, CHR ''(''])"

text \<open>Parsing and rendering on a miss (lines 310 to 405), once the renderer has
  returned \<open>html0\<close>.\<close>

definition parsedContent :: "Service \<Rightarrow> Lib \<Rightarrow> Paths \<Rightarrow> string \<Rightarrow> string \<Rightarrow> ParsedDoc \<Rightarrow> string \<Rightarrow> Content" where
  "parsedContent s lib p version source doc html0 =
     (let html1 = (case docD2Pairs doc of None \<Rightarrow> html0 | Some pairs \<Rightarrow> ReplaceD2 s html0 pairs);
          math = (if hasMath source then RenderMath s html1 else (html1, []));
          html2 = fst math;
          ssr = docSSRHashes doc @ snd math;
          html3 = (if CompressImages (cfg s) then ReplaceToWebP lib html2 else html2);
          md = docMeta doc;
          dateObj = ParseDate lib (GetString lib md ''date'');
          isPinned = (case md ''pinned'' of Some (VBool b) \<Rightarrow> b | _ \<Rightarrow> False);
          weight = (case md ''weight'' of
                      Some (VInt n) \<Rightarrow> n
                    | Some (VFloat f) \<Rightarrow> TruncFloat lib f
                    | _ \<Rightarrow> 0);
          wordCount = length (Fields lib source);
          pst = \<lparr>Title = GetString lib md ''title'',
                 Link = BuildURL lib (BaseURL (cfg s)) version (cleanHtmlRelPath p),
                 Weight = weight, Version = version, DateObj = dateObj,
                 ReadingTime = ReadingTimeOf lib wordCount,
                 Description = GetString lib md ''description'',
                 Tags = GetSlice lib md ''tags'', Pinned = isPinned,
                 Draft = GetBool lib md ''draft''\<rparr>;
          rec = \<lparr>ID = 0, rTitle = Title pst, rNormalizedTitle = ToLower lib (Title pst),
                 rLink = htmlRelPath p, rDescription = Description pst, rTags = Tags pst,
                 rNormalizedTags = map (ToLower lib) (Tags pst),
                 rContent = docPlainText doc, rVersion = version\<rparr>;
          words = Analyze lib (rTitle rec @ '' '' @ rDescription rec @ '' '' @
                    concat (map (\<lambda>t. t @ '' '') (rTags rec)) @ rContent rec)
      in \<lparr>htmlContent = html3, metaData = md, post = pst, searchRecord = rec,
          wordFreqs = foldl countWord Map.empty words, docLen = int (length words),
          toc = docTOC doc, frontmatterHash = GetFrontmatterHash lib md,
          plainText = docPlainText doc, ssrHashes = ssr\<rparr>)"

text \<open>The miss branch: \<open>Inl\<close> is the early return after a render error.\<close>

definition missContent :: "Service \<Rightarrow> Lib \<Rightarrow> Paths \<Rightarrow> string \<Rightarrow> string \<Rightarrow> string \<Rightarrow> BuildState \<Rightarrow>
    BuildState + BuildState \<times> Content" where
  "missContent s lib p path version source st =
     (let st1 = writeRawOnMiss s lib p source (st\<lparr>cacheMisses := cacheMisses st + 1\<rparr>);
          doc = mdParse s path source
      in case mdRender s source doc of
           None \<Rightarrow> Inl (logMsg Error ''Failed to render markdown'' path st1)
         | Some html0 \<Rightarrow> Inr (st1, parsedContent s lib p version source doc html0))"

definition resolveContent :: "Service \<Rightarrow> Lib \<Rightarrow> Paths \<Rightarrow> string \<Rightarrow> string \<Rightarrow> string \<Rightarrow>
    (PostMeta \<times> string \<times> SearchRecord) option \<Rightarrow> BuildState \<Rightarrow> BuildState + BuildState \<times> Content" where
  "resolveContent s lib p path version source loaded st =
     (case loaded of
        Some (m, html, sr) \<Rightarrow>
          Inr (st\<lparr>cacheHits := cacheHits st + 1\<rparr>, hitContent st p m html sr)
      | None \<Rightarrow> missContent s lib p path version source st)"

subsection \<open>After the draft gate (lines 412 to 550)\<close>

text \<open>A run-time panic ends the build. The steps below return it together with the
  state in which it happens, so that what the build had done by then can be stated.\<close>

datatype panic = IndexOutOfRange | NilDereference

definition cardDestPathOf :: "Service \<Rightarrow> Lib \<Rightarrow> Paths \<Rightarrow> string" where
  "cardDestPathOf s lib p =
     ToSlash lib (Join lib [OutputDir (cfg s), ''static'', ''images'', ''cards'',
       TrimSuffix (htmlRelPath p) ''.html'' @ ''.webp''])"

definition cardExistsIn :: "Service \<Rightarrow> string \<Rightarrow> string \<Rightarrow> BuildState \<Rightarrow> bool" where
  "cardExistsIn s path cardDestPath st =
     (case destFs st cardDestPath of
        None \<Rightarrow> False
      | Some n \<Rightarrow>
          \<not> nIsDir n \<and>
          (case srcStat s path of
             None \<Rightarrow> False
           | Some sourceInfo \<Rightarrow> After (nModTime n) (fModTime sourceInfo)))"

definition socialCard :: "Service \<Rightarrow> Lib \<Rightarrow> Flags \<Rightarrow> Paths \<Rightarrow> string \<Rightarrow> string \<Rightarrow> Content \<Rightarrow>
    BuildState \<Rightarrow> BuildState" where
  "socialCard s lib fl p path cachedHash c st =
     (let cardDestPath = cardDestPathOf s lib p;
          st1 = MkdirAll s ''Failed to create social card directory'' (Dir lib cardDestPath) st;
          cardExists = cardExistsIn s path cardDestPath st1
      in if forceSocialRebuild fl \<or> (cachedHash \<noteq> frontmatterHash c \<or> \<not> cardExists) then
           st1\<lparr>cardTasks := cardTasks st1 @
             [\<lparr>tPath = relPath p,
               tRelPath = TrimSuffix (htmlRelPath p) ''.html'' @ ''.webp'',
               tCardDestPath = cardDestPath,
               tMetaData = metaData c,
               tFrontmatterHash = frontmatterHash c\<rparr>]\<rparr>
         else if cardExists then
           (case cache s of
              None \<Rightarrow> st1
            | Some ch \<Rightarrow>
                if cachedHash = [] then
                  (let st2 = st1\<lparr>cacheCalls := cacheCalls st1 @
                                 [SetSocialCardHash (relPath p) (frontmatterHash c)]\<rparr>
                   in if SetSocialCardHashOk ch (cacheCalls st1) (relPath p) (frontmatterHash c)
                      then st2
                      else logMsg Error ''Failed to set social card hash'' (relPath p) st2)
                else st1)
         else st1)"

definition imagePathOf :: "Service \<Rightarrow> Lib \<Rightarrow> Paths \<Rightarrow> frontmatter \<Rightarrow> string" where
  "imagePathOf s lib p md =
     (case md ''image'' of
        Some (VString img) \<Rightarrow>
          (let ext = Ext lib img;
               img' = (if CompressImages (cfg s) \<and> \<not> HasPrefix img ''http''
                          \<and> (ext = ''.png'' \<or> ext = ''.jpg'' \<or> ext = ''.jpeg'')
                       then take (length img - length ext) img @ ''.webp'' else img)
           in BaseURL (cfg s) @ img')
      | _ \<Rightarrow> BaseURL (cfg s) @ ''/static/images/cards/'' @
               TrimSuffix (htmlRelPath p) ''.html'' @ ''.webp'')"

text \<open>
  The rendering decision (lines 454 to 468). \<open>useCache\<close> is the value after the loading
  step, \<open>info\<close> the source's file information after the second attempt to stat it. The
  result is \<open>None\<close> where the code calls \<open>ModTime\<close> on a nil \<open>info\<close>.
\<close>

definition willRender :: "Flags \<Rightarrow> bool \<Rightarrow> stat_result \<Rightarrow> FileInfo option \<Rightarrow> bool option" where
  "willRender fl useCache destStat info =
     (if outputMissing fl then Some True
      else if useCache then Some (destStat = StatNotExist)
      else
        (case destStat of
           StatOk destInfo \<Rightarrow>
             (case info of
                None \<Rightarrow> None
              | Some i \<Rightarrow> Some (\<not> After (fModTime destInfo) (fModTime i)))
         | _ \<Rightarrow> Some True))"

text \<open>The raw-source mirror for posts whose mirror is missing (lines 470 to 486).\<close>

definition writeRawIfMissing :: "Service \<Rightarrow> Lib \<Rightarrow> Paths \<Rightarrow> string \<Rightarrow> BuildState \<Rightarrow> BuildState" where
  "writeRawIfMissing s lib p path st =
     (if RawMarkdown (cfg s) then
        (let mdDestPath = mdDestPathOf lib (destPath p)
         in if osStat s mdDestPath = StatNotExist then
              (case srcReadFile s path of
                 None \<Rightarrow> logMsg Error ''Failed to read source file for raw markdown'' path st
               | Some sourceBytes \<Rightarrow>
                   if sourceBytes \<noteq> [] then
                     WriteFile s ''Failed to write raw markdown file'' mdDestPath sourceBytes
                       (MkdirAll s ''Failed to create markdown directory'' (Dir lib mdDestPath) st)
                   else st)
            else st)
      else st)"

definition renderContextOf :: "Service \<Rightarrow> Lib \<Rightarrow> Paths \<Rightarrow> string \<Rightarrow> Content \<Rightarrow> RenderContext" where
  "renderContextOf s lib p version c =
     \<lparr>DestPath = destPath p,
      Data = \<lparr>pTitle = Title (post c), pDescription = Description (post c),
               pContent = htmlContent c, pMeta = metaData c, pBaseURL = BaseURL (cfg s),
               pBuildVersion = BuildVersion (cfg s),
               pTabTitle = Title (post c) @ '' | '' @ SiteTitle (cfg s),
               pPermalink = Link (post c), pImage = imagePathOf s lib p (metaData c),
               pTOC = toc c, pCurrentVersion = version,
               pIsOutdated = IsOutdatedVersion lib version,
               pVersions = GetVersionsMetadata lib version (cleanHtmlRelPath p),
               pWeight = 0, pSiteTree = [], pPrevPage = None, pNextPage = None\<rparr>,
      rcVersion = version\<rparr>"

text \<open>Lines 488 to 505: the slot of the render queue is written only when \<open>willRender\<close>
  is true.\<close>

definition enqueueRender :: "bool \<Rightarrow> nat \<Rightarrow> RenderContext \<Rightarrow> BuildState \<Rightarrow>
    panic \<times> BuildState + BuildState" where
  "enqueueRender wr idx rc st =
     (if wr then
        (if idx < length (renderQueue st) then
           Inr (st\<lparr>renderQueue := (renderQueue st)[idx := rc], anyPostChanged := True\<rparr>)
         else Inl (IndexOutOfRange, st))
      else Inr st)"

text \<open>
  Lines 507 to 513: the metadata is stored under the post's link, then the search ID is
  reserved by \<open>atomic.AddInt32(&indexedPostIdx, 1)\<close>, converted to \<open>int\<close>, and the
  indexed post is written at that position of the preallocated slice. An index outside
  the slice panics; the counter has been advanced by then.
\<close>

definition publish :: "Content \<Rightarrow> BuildState \<Rightarrow> panic \<times> BuildState + BuildState" where
  "publish c st =
     (let st1 = st\<lparr>allMetadataMap := AList.update (Link (post c)) (post c) (allMetadataMap st)\<rparr>;
          counter = indexedPostIdx st1 + 1;
          sid = sint counter
      in if 0 \<le> sid \<and> sid < int (length (indexedPosts st1)) then
           Inr (st1\<lparr>indexedPostIdx := counter, assigned := assigned st1 @ [sid],
                    indexedPosts := (indexedPosts st1)[nat sid :=
                      \<lparr>Record = (searchRecord c)\<lparr>ID := sid\<rparr>, WordFreqs = wordFreqs c,
                       DocLen = docLen c\<rparr>]\<rparr>)
         else Inl (IndexOutOfRange,
                st1\<lparr>indexedPostIdx := counter, assigned := assigned st1 @ [sid]\<rparr>))"

text \<open>Lines 522 to 547: on a miss with a cache, the new records are handed to
  \<open>StoreHTMLForPost\<close> and appended to the staging area.\<close>

definition stage :: "Service \<Rightarrow> Lib \<Rightarrow> Paths \<Rightarrow> string \<Rightarrow> string \<Rightarrow> FileInfo option \<Rightarrow> bool \<Rightarrow>
    Content \<Rightarrow> BuildState \<Rightarrow> panic \<times> BuildState + BuildState" where
  "stage s lib p version bodyHash info useCache c st =
     (case cache s of
        None \<Rightarrow> Inr st
      | Some ch \<Rightarrow>
          if useCache then Inr st
          else
            (case info of
               None \<Rightarrow> Inl (NilDereference, st)
             | Some i \<Rightarrow>
                 (let postID = GeneratePostID lib [] (relPath p);
                      newMeta0 = \<lparr>PostID = postID, Path = relPath p, ModTime = Unix (fModTime i),
                        ContentHash = frontmatterHash c, BodyHash = bodyHash,
                        mTitle = Title (post c), mDate = DateObj (post c), mTags = Tags (post c),
                        mReadingTime = ReadingTime (post c), mDescription = Description (post c),
                        mLink = Link (post c), mPinned = Pinned (post c),
                        mWeight = Weight (post c), mDraft = Draft (post c),
                        Meta = metaData c, TOC = toc c, mVersion = version,
                        SSRInputHashes = ssrHashes c\<rparr>;
                      stored = StoreHTMLForPostRes ch (cacheCalls st) newMeta0 (htmlContent c);
                      newMeta = fst stored;
                      st1 = st\<lparr>cacheCalls := cacheCalls st @ [StoreHTMLForPost newMeta0 (htmlContent c)]\<rparr>;
                      st2 = (if snd stored then st1
                             else logMsg Error ''Failed to store HTML in cache'' (relPath p) st1);
                      newSearch = \<lparr>sTitle = Title (post c),
                        sNormalizedTitle = rNormalizedTitle (searchRecord c),
                        BM25Data = wordFreqs c, sDocLen = docLen c, sContent = plainText c,
                        sNormalizedTags = rNormalizedTags (searchRecord c)\<rparr>;
                      newDep = \<lparr>dTags = Tags (post c)\<rparr>
                  in Inr (st2\<lparr>newPostsMeta := newPostsMeta st2 @ [newMeta],
                              newSearchRecords := AList.update postID newSearch (newSearchRecords st2),
                              newDeps := AList.update postID newDep (newDeps st2)\<rparr>))))"

text \<open>Where a worker leaves: the four early returns, and the end of the function.\<close>

datatype exit = ExitOversize | ExitRenderError | ExitDraft | ExitCancelled | ExitDone

fun reachedPublish :: "exit \<Rightarrow> bool" where
  "reachedPublish ExitCancelled = True"
| "reachedPublish ExitDone = True"
| "reachedPublish e = False"

text \<open>Lines 412 to 550, for a post that passed the draft gate. \<open>ctxDone\<close> is what the
  \<open>select\<close> on \<open>ctx.Done()\<close> observes.\<close>

definition finish :: "Service \<Rightarrow> Lib \<Rightarrow> Flags \<Rightarrow> bool \<Rightarrow> nat \<Rightarrow> string \<Rightarrow> string \<Rightarrow> Paths \<Rightarrow>
    string \<Rightarrow> string \<Rightarrow> FileInfo option \<Rightarrow> bool \<Rightarrow> Content \<Rightarrow> BuildState \<Rightarrow>
    panic \<times> BuildState + exit \<times> BuildState" where
  "finish s lib fl ctxDone idx path version p cachedHash bodyHash info useCache c st =
     (let st1 = socialCard s lib fl p path cachedHash c st;
          info' = (if outputMissing fl \<or> useCache then info
                   else (case info of None \<Rightarrow> srcStat s path | Some i \<Rightarrow> Some i))
      in case willRender fl useCache (osStat s (destPath p)) info' of
           None \<Rightarrow> Inl (NilDereference, st1)
         | Some wr \<Rightarrow>
             (case enqueueRender wr idx (renderContextOf s lib p version c)
                     (writeRawIfMissing s lib p path st1) of
                Inl e \<Rightarrow> Inl e
              | Inr st2 \<Rightarrow>
                  (case publish c st2 of
                     Inl e \<Rightarrow> Inl e
                   | Inr st3 \<Rightarrow>
                       if ctxDone then Inr (ExitCancelled, st3)
                       else
                         (case stage s lib p version bodyHash info' useCache c st3 of
                            Inl e \<Rightarrow> Inl e
                          | Inr st4 \<Rightarrow>
                              Inr (ExitDone,
                                st4\<lparr>postsProcessed := postsProcessed st4 + 1,
                                    processedCount := processedCount st4 + 1\<rparr>)))))"

subsection \<open>One worker invocation (lines 173 to 551)\<close>

definition worker :: "Service \<Rightarrow> Lib \<Rightarrow> Flags \<Rightarrow> bool \<Rightarrow> BuildState \<Rightarrow> nat \<times> string \<times> string \<Rightarrow>
    panic \<times> BuildState + exit \<times> BuildState" where
  "worker s lib fl ctxDone st task =
     (case task of (idx, path, version) \<Rightarrow>
        (let p = derivePaths s lib path version
         in case cacheProbe s lib fl (cacheCalls st) path (relPath p) of
              Oversize i \<Rightarrow>
                Inr (ExitOversize, logMsg Warn ''File exceeds size limit, skipping'' path st)
            | Probed cm info source bodyHash useCache0 \<Rightarrow>
                (let cachedHash = cachedHashOf s (cacheCalls st) (relPath p) cm useCache0;
                     loaded = loadCached s (cacheCalls st) cm useCache0
                 in case resolveContent s lib p path version source loaded st of
                      Inl st1 \<Rightarrow> Inr (ExitRenderError, st1)
                    | Inr (st1, c) \<Rightarrow>
                        if Draft (post c) \<and> \<not> IncludeDrafts (cfg s) then Inr (ExitDraft, st1)
                        else finish s lib fl ctxDone idx path version p cachedHash bodyHash
                               info (loaded \<noteq> None) c st1)))"

subsection \<open>Walking the content directory (lines 87 to 106)\<close>

fun walkStep :: "Lib \<Rightarrow> (string \<times> string) list \<times> bool \<times> log_entry list \<Rightarrow> string \<times> bool \<Rightarrow>
    (string \<times> string) list \<times> bool \<times> log_entry list" where
  "walkStep lib (files, has404, lg) (path, err) =
     (if err then (files, has404, lg @ [(Error, ''Error walking content directory'', path)])
      else if HasSuffix path ''.md'' \<and> \<not> Contains path ''_index.md'' then
        (if Contains path ''404.md'' then (files, True, lg)
         else (files @ [(path, GetVersionFromPath lib path)], has404, lg))
      else (files, has404, lg))"

definition walkContent :: "Service \<Rightarrow> Lib \<Rightarrow> (string \<times> string) list \<times> bool \<times> log_entry list" where
  "walkContent s lib =
     (case foldl (walkStep lib) ([], False, []) (srcWalk s) of
        (files, has404, lg) \<Rightarrow>
          (files, has404,
           if srcWalkOk s then lg else lg @ [(Error, ''Failed to walk content directory'', [])]))"

subsection \<open>The stale-entry sweep and the warm-up (lines 108 to 171)\<close>

definition sweepStep :: "CacheService \<Rightarrow> string list \<Rightarrow> BuildState \<Rightarrow> string \<Rightarrow> BuildState" where
  "sweepStep c existingFiles st pid =
     (case GetPost c (cacheCalls st) pid of
        Ok (Some m) \<Rightarrow>
          if Path m \<in> set existingFiles then st
          else (logMsg Info ''Purging stale cache entry'' (Path m) st)
                 \<lparr>cacheCalls := cacheCalls st @ [DeletePost pid]\<rparr>
      | _ \<Rightarrow> st)"

definition sweep :: "Service \<Rightarrow> Lib \<Rightarrow> string list \<Rightarrow> BuildState \<Rightarrow> BuildState" where
  "sweep s lib files st =
     (case cache s of
        None \<Rightarrow> st
      | Some c \<Rightarrow>
          (case ListAllPosts c of
             None \<Rightarrow> st
           | Some lister \<Rightarrow>
               foldl (sweepStep c (map (SafeRel lib (ContentDir (cfg s))) files)) st
                 (lister (cacheCalls st))))"

definition cachedPostMetadata :: "PostMeta \<Rightarrow> PostMetadata" where
  "cachedPostMetadata cp =
     \<lparr>Title = mTitle cp, Link = mLink cp, Weight = mWeight cp, Version = mVersion cp,
      DateObj = mDate cp, ReadingTime = mReadingTime cp, Description = mDescription cp,
      Tags = mTags cp, Pinned = mPinned cp, Draft = mDraft cp\<rparr>"

definition warmup :: "Service \<Rightarrow> BuildState \<Rightarrow> BuildState" where
  "warmup s st =
     (case cache s of
        None \<Rightarrow> st
      | Some c \<Rightarrow>
          (case ListAllPosts c of
             None \<Rightarrow> st
           | Some lister \<Rightarrow>
               st\<lparr>allMetadataMap :=
                    foldl (\<lambda>m cp. AList.update (mLink cp) (cachedPostMetadata cp) m)
                      (allMetadataMap st)
                      (GetPostsByIDs c (cacheCalls st) (lister (cacheCalls st)))\<rparr>))"

definition initState :: "Service \<Rightarrow> nat \<Rightarrow> log_entry list \<Rightarrow> BuildState" where
  "initState s n lg =
     \<lparr>allMetadataMap = [], newPostsMeta = [], newSearchRecords = [], newDeps = [],
      indexedPosts = replicate n zeroIndexedPost, indexedPostIdx = - 1, assigned = [],
      renderQueue = replicate n zeroRenderContext, cardTasks = [], anyPostChanged = False,
      processedCount = 0, destFs = destInit s, cacheCalls = [], logs = lg,
      cacheHits = 0, cacheMisses = 0, postsProcessed = 0\<rparr>"

subsection \<open>The submit loop (lines 554 to 567)\<close>

text \<open>
  Modelled from the spec: the worker pool (\<open>utils.NewWorkerPool\<close>) is not in the source
  files; the spec gives it the protocol Start, Submit, Stop-and-wait. Here a submitted
  task runs to its end before the next one is submitted, which is the schedule of a pool
  that takes each task at once. The context is a function of a tick: the submit loop
  looks at tick \<open>2 * i\<close> before it submits file \<open>i\<close>, and the worker of file \<open>i\<close>
  looks at tick \<open>2 * i + 1\<close> at its own check. The list of exits records where each
  submitted worker left.
\<close>

fun runTasks :: "Service \<Rightarrow> Lib \<Rightarrow> Flags \<Rightarrow> (nat \<Rightarrow> bool) \<Rightarrow> BuildState \<Rightarrow>
    (nat \<times> string \<times> string) list \<Rightarrow> panic \<times> BuildState + exit list \<times> BuildState" where
  "runTasks s lib fl ctx st [] = Inr ([], st)"
| "runTasks s lib fl ctx st (t # ts) =
     (if ctx (2 * fst t) then Inr ([], st)
      else
        (case worker s lib fl (ctx (2 * fst t + 1)) st t of
           Inl e \<Rightarrow> Inl e
         | Inr (ex, st1) \<Rightarrow>
             (case runTasks s lib fl ctx st1 ts of
                Inl e \<Rightarrow> Inl e
              | Inr (exs, st2) \<Rightarrow> Inr (ex # exs, st2))))"

definition tasksOf :: "(string \<times> string) list \<Rightarrow> (nat \<times> string \<times> string) list" where
  "tasksOf files = zip [0 ..< length files] files"

subsection \<open>The final grouping (lines 570 to 604)\<close>

text \<open>Modelled from the spec: \<open>utils.SortPosts\<close> is not in the source files. The spec
  orders posts by weight ascending (a zero weight sorts last), then date descending,
  then title ascending.\<close>

definition postLe :: "PostMetadata \<Rightarrow> PostMetadata \<Rightarrow> bool" where
  "postLe a b =
     (let ka = (if Weight a = 0 then (1::int, 0) else (0, Weight a));
          kb = (if Weight b = 0 then (1::int, 0) else (0, Weight b))
      in fst ka < fst kb \<or> (fst ka = fst kb \<and>
           (snd ka < snd kb \<or> (snd ka = snd kb \<and>
              (DateObj b < DateObj a \<or> (DateObj a = DateObj b \<and> Title a \<le> Title b))))))"

fun insertPost :: "PostMetadata \<Rightarrow> PostMetadata list \<Rightarrow> PostMetadata list" where
  "insertPost p [] = [p]"
| "insertPost p (q # qs) = (if postLe p q then p # q # qs else q # insertPost p qs)"

definition SortPosts :: "PostMetadata list \<Rightarrow> PostMetadata list" where
  "SortPosts ps = foldr insertPost ps []"

text \<open>A Go map from strings to slices, in the order of first insertion; a missing key
  reads as the nil slice.\<close>

definition slices :: "(string \<times> 'a list) list \<Rightarrow> string \<Rightarrow> 'a list" where
  "slices m k = (case map_of m k of None \<Rightarrow> [] | Some xs \<Rightarrow> xs)"

definition appendTo :: "string \<Rightarrow> 'a \<Rightarrow> (string \<times> 'a list) list \<Rightarrow> (string \<times> 'a list) list" where
  "appendTo k x m = AList.update k (slices m k @ [x]) m"

text \<open>The loop over the configured versions with its \<open>break\<close> (lines 586 to 594).\<close>

fun scanVersions :: "VersionCfg list \<Rightarrow> string \<Rightarrow> bool \<Rightarrow> bool" where
  "scanVersions [] ver acc = acc"
| "scanVersions (v # vs) ver acc =
     (if IsLatest v \<and> ver = vName v then True else scanVersions vs ver acc)"

definition isLatestOrUnversioned :: "Config \<Rightarrow> PostMetadata \<Rightarrow> bool" where
  "isLatestOrUnversioned cf p =
     (if 0 < length (Versions cf) then scanVersions (Versions cf) (Version p) (Version p = [])
      else Version p = [])"

record Grouping =
  postsByVersion :: "(string \<times> PostMetadata list) list"
  tagMap :: "(string \<times> PostMetadata list) list"
  allPosts :: "PostMetadata list"
  pinnedPosts :: "PostMetadata list"

definition groupStep :: "Service \<Rightarrow> Lib \<Rightarrow> Grouping \<Rightarrow> string \<times> PostMetadata \<Rightarrow> Grouping" where
  "groupStep s lib g kv =
     (let p = snd kv;
          g1 = g\<lparr>postsByVersion := appendTo (Version p) p (postsByVersion g),
                 tagMap := foldl (\<lambda>m t. appendTo (ToLower lib (TrimSpace lib t)) p m)
                             (tagMap g) (Tags p)\<rparr>
      in if isLatestOrUnversioned (cfg s) p then
           (if Pinned p then g1\<lparr>pinnedPosts := pinnedPosts g1 @ [p]\<rparr>
            else g1\<lparr>allPosts := allPosts g1 @ [p]\<rparr>)
         else g1)"

definition groupAll :: "Service \<Rightarrow> Lib \<Rightarrow> (string \<times> PostMetadata) list \<Rightarrow> Grouping" where
  "groupAll s lib m =
     foldl (groupStep s lib)
       \<lparr>postsByVersion = [], tagMap = [], allPosts = [], pinnedPosts = []\<rparr> m"

subsection \<open>Rendering and commit (lines 606 to 664)\<close>

definition currentPostOf :: "RenderContext \<Rightarrow> PostMetadata list \<Rightarrow> PostMetadata" where
  "currentPostOf task versionPosts =
     (case find (\<lambda>p. Link p = pPermalink (Data task)) versionPosts of
        Some p \<Rightarrow> p
      | None \<Rightarrow> zeroPost\<lparr>Title := pTitle (Data task), Link := pPermalink (Data task),
                          Weight := pWeight (Data task), Version := rcVersion task\<rparr>)"

text \<open>The site trees, one for each version that has posts (lines 606 to 610).\<close>

definition siteTreesOf :: "Lib \<Rightarrow> (string \<times> PostMetadata list) list \<Rightarrow> (string \<times> TreeNode list) list" where
  "siteTreesOf lib byVersion = map (\<lambda>(ver, posts). (ver, BuildSiteTree lib posts [])) byVersion"

text \<open>The task handed to the render pool for one slot of the queue, with the site tree
  that the pool's worker adds before it calls \<open>RenderPage\<close>.\<close>

definition renderTaskOf :: "Lib \<Rightarrow> (string \<times> PostMetadata list) list \<Rightarrow> RenderContext \<Rightarrow> RenderContext" where
  "renderTaskOf lib byVersion task =
     (let versionPosts = slices byVersion (rcVersion task);
          pn = FindPrevNext lib (currentPostOf task versionPosts) versionPosts
      in task\<lparr>Data := (Data task)\<lparr>pPrevPage := fst pn, pNextPage := snd pn,
                 pSiteTree := slices (siteTreesOf lib byVersion) (rcVersion task)\<rparr>\<rparr>)"

definition submittedRenders :: "Lib \<Rightarrow> (string \<times> PostMetadata list) list \<Rightarrow> RenderContext list \<Rightarrow>
    RenderContext list" where
  "submittedRenders lib byVersion queue =
     map (renderTaskOf lib byVersion) (filter (\<lambda>task. DestPath task \<noteq> []) queue)"

definition commit :: "Service \<Rightarrow> BuildState \<Rightarrow> BuildState" where
  "commit s st =
     (case cache s of
        None \<Rightarrow> st
      | Some c \<Rightarrow>
          if 0 < length (newPostsMeta st) then
            (let st1 = st\<lparr>cacheCalls := cacheCalls st @
                           [BatchCommit (newPostsMeta st) (newSearchRecords st) (newDeps st)]\<rparr>
             in if BatchCommitOk c (cacheCalls st) (newPostsMeta st) then st1
                else logMsg Warn ''Failed to commit cache batch'' [] st1)
          else st)"

record PostResult =
  AllPosts :: "PostMetadata list"
  PinnedPosts :: "PostMetadata list"
  TagMap :: "(string \<times> PostMetadata list) list"
  IndexedPosts :: "IndexedPost list"
  AnyPostChanged :: bool
  Has404 :: bool

text \<open>What a build leaves: the returned \<open>PostResult\<close>, the tasks submitted to the render
  pool, the final state (with the cache history and the destination file system), and
  the exits of the submitted workers.\<close>

record Outcome =
  result :: PostResult
  renders :: "RenderContext list"
  final :: BuildState
  exits :: "exit list"

definition Process :: "Service \<Rightarrow> Lib \<Rightarrow> Flags \<Rightarrow> (nat \<Rightarrow> bool) \<Rightarrow> panic + Outcome" where
  "Process s lib fl ctx =
     (case walkContent s lib of
        (files, has404, lg) \<Rightarrow>
          (let st0 = warmup s (sweep s lib (map fst files) (initState s (length files) lg))
           in case runTasks s lib fl ctx st0 (tasksOf files) of
                Inl (e, st1) \<Rightarrow> Inl e
              | Inr (exs, st1) \<Rightarrow>
                  (let g = groupAll s lib (allMetadataMap st1);
                       byVersion = map (\<lambda>(ver, posts). (ver, SortPosts posts)) (postsByVersion g);
                       st2 = commit s st1
                   in Inr \<lparr>result =
                             \<lparr>AllPosts = SortPosts (allPosts g),
                              PinnedPosts = SortPosts (pinnedPosts g),
                              TagMap = tagMap g,
                              IndexedPosts = indexedPosts st2,
                              AnyPostChanged = anyPostChanged st2,
                              Has404 = has404\<rparr>,
                           renders = submittedRenders lib byVersion (renderQueue st1),
                           final = st2,
                           exits = exs\<rparr>)))"

text \<open>The panic that ends a build, if one does, with the state in which it happens.\<close>

definition atPanic :: "Service \<Rightarrow> Lib \<Rightarrow> Flags \<Rightarrow> (nat \<Rightarrow> bool) \<Rightarrow> (panic \<times> BuildState) option" where
  "atPanic s lib fl ctx =
     (case walkContent s lib of
        (files, has404, lg) \<Rightarrow>
          (case runTasks s lib fl ctx
                  (warmup s (sweep s lib (map fst files) (initState s (length files) lg)))
                  (tasksOf files) of
             Inl (e, st1) \<Rightarrow> Some (e, st1)
           | Inr (exs, st1) \<Rightarrow> None))"

subsection \<open>Notions used in the statements\<close>

text \<open>Whether \<open>useCache\<close> is true at line 266 for a post: the probe says hit and both
  cached artefacts load.\<close>

definition isHit :: "Service \<Rightarrow> Lib \<Rightarrow> Flags \<Rightarrow> BuildState \<Rightarrow> string \<Rightarrow> string \<Rightarrow> bool" where
  "isHit s lib fl st path version =
     (case cacheProbe s lib fl (cacheCalls st) path (relPath (derivePaths s lib path version)) of
        Oversize i \<Rightarrow> False
      | Probed cm info source bodyHash useCache \<Rightarrow>
          loadCached s (cacheCalls st) cm useCache \<noteq> None)"

text \<open>The destination cannot be stat'ed, or its modification time is not after the
  source's.\<close>

definition destStale :: "Service \<Rightarrow> string \<Rightarrow> string \<Rightarrow> bool" where
  "destStale s path dest =
     (case osStat s dest of
        StatOk destInfo \<Rightarrow>
          (case srcStat s path of
             None \<Rightarrow> False
           | Some i \<Rightarrow> \<not> After (fModTime destInfo) (fModTime i))
      | _ \<Rightarrow> True)"

fun isBatchCommit :: "cache_call \<Rightarrow> bool" where
  "isBatchCommit (BatchCommit ms srs ds) = True"
| "isBatchCommit call = False"

text \<open>Two states that differ at most in the log.\<close>

definition sameButLogs :: "BuildState \<Rightarrow> BuildState \<Rightarrow> bool" where
  "sameButLogs a b = (a\<lparr>logs := []\<rparr> = b\<lparr>logs := []\<rparr>)"

text \<open>Two outcomes of a worker or of a run, each a panic or a return: the same panic or
  the same exits, with states that differ at most in the log.\<close>

definition sameOutcome :: "'e \<times> BuildState + 'x \<times> BuildState \<Rightarrow> 'e \<times> BuildState + 'x \<times> BuildState \<Rightarrow> bool" where
  "sameOutcome r r' =
     rel_sum (\<lambda>(e, a) (e', b). e = e' \<and> sameButLogs a b)
             (\<lambda>(x, a) (x', b). x = x' \<and> sameButLogs a b) r r'"

text \<open>The content of a post as its worker resolves it, from the cache on a hit and from the
  parser and the renderer on a miss; \<open>None\<close> for a post that is skipped at the size gate or
  whose rendering fails.\<close>

definition resolved :: "Service \<Rightarrow> Lib \<Rightarrow> Flags \<Rightarrow> BuildState \<Rightarrow> string \<Rightarrow> string \<Rightarrow> Content option" where
  "resolved s lib fl st path version =
     (let p = derivePaths s lib path version
      in case cacheProbe s lib fl (cacheCalls st) path (relPath p) of
           Oversize i \<Rightarrow> None
         | Probed cm info source bodyHash useCache \<Rightarrow>
             (case resolveContent s lib p path version source
                     (loadCached s (cacheCalls st) cm useCache) st of
                Inl st1 \<Rightarrow> None
              | Inr (st1, c) \<Rightarrow> Some c))"

section \<open>Concrete inputs\<close>

text \<open>
  A small site for the concrete runs below: content directory \<open>c\<close>, output directory
  \<open>o\<close>, one source file \<open>c/a.md\<close> of five bytes, last modified at second 100. The
  library functions are simple stand-ins: the body hash of a source is the source behind
  the prefix \<open>h:\<close> (so it is never empty and differs for different sources), paths are
  joined with a slash, and the parser reads a source that starts with \<open>D\<close> as a draft.
\<close>

definition seconds :: "int \<Rightarrow> time" where
  "seconds n = n * 1000000000"

definition demoJoin :: "string list \<Rightarrow> string" where
  "demoJoin parts = foldr (\<lambda>a b. if b = [] then a else a @ ''/'' @ b) parts []"

definition demoExt :: "string \<Rightarrow> string" where
  "demoExt p = (if HasSuffix p ''.html'' then ''.html''
                else if HasSuffix p ''.md'' then ''.md'' else [])"

definition demoLib :: Lib where
  "demoLib =
     \<lparr>SafeRel = (\<lambda>base p. TrimPrefix p (base @ ''/'')),
      GetVersionFromPath = (\<lambda>p. []),
      GetBodyHash = (\<lambda>src. ''h:'' @ src),
      GetFrontmatterHash = (\<lambda>md. case md ''title'' of Some (VString t) \<Rightarrow> ''f:'' @ t | _ \<Rightarrow> ''f:''),
      GeneratePostID = (\<lambda>pre rel. rel),
      GetString = (\<lambda>md k. case md k of Some (VString v) \<Rightarrow> v | _ \<Rightarrow> []),
      GetSlice = (\<lambda>md k. []),
      GetBool = (\<lambda>md k. case md k of Some (VBool b) \<Rightarrow> b | _ \<Rightarrow> False),
      BuildURL = (\<lambda>base ver clean. base @ ''/'' @ clean),
      ReplaceToWebP = (\<lambda>h. h),
      BuildSiteTree = (\<lambda>ps root. []),
      FindPrevNext = (\<lambda>p ps. (None, None)),
      IsOutdatedVersion = (\<lambda>v. False),
      GetVersionsMetadata = (\<lambda>v clean. []),
      Analyze = (\<lambda>text. []),
      ToLower = (\<lambda>x. x),
      TrimSpace = (\<lambda>x. x),
      Fields = (\<lambda>x. []),
      Join = demoJoin,
      Ext = demoExt,
      Dir = (\<lambda>p. ''o''),
      ToSlash = (\<lambda>p. p),
      ParseDate = (\<lambda>d. zeroTime),
      TruncFloat = (\<lambda>f. 0),
      ReadingTimeOf = (\<lambda>n. 0)\<rparr>"

definition demoCfg :: Config where
  "demoCfg =
     \<lparr>ContentDir = ''c'', OutputDir = ''o'', BaseURL = [], BuildVersion = ''1'',
      SiteTitle = ''S'', IncludeDrafts = False, CompressImages = False,
      RawMarkdown = False, Versions = []\<rparr>"

definition demoInfo :: FileInfo where
  "demoInfo = \<lparr>fModTime = seconds 100, fSize = 5, fIsDir = False\<rparr>"

definition demoDoc :: "string \<Rightarrow> ParsedDoc" where
  "demoDoc src =
     \<lparr>docMeta = (if HasPrefix src ''D''
                  then [''title'' \<mapsto> VString ''A'', ''draft'' \<mapsto> VBool True]
                  else [''title'' \<mapsto> VString ''A'']),
      docTOC = [], docSSRHashes = [], docD2Pairs = None, docPlainText = src\<rparr>"

definition demoService :: Service where
  "demoService =
     \<lparr>cfg = demoCfg, cache = None, srcWalk = [(''c/a.md'', False)], srcWalkOk = True,
      srcStat = (\<lambda>p. if p = ''c/a.md'' then Some demoInfo else None),
      srcReadFile = (\<lambda>p. if p = ''c/a.md'' then Some ''hello'' else None),
      osStat = (\<lambda>p. StatNotExist),
      MkdirAllOk = (\<lambda>d. True), WriteFileOk = (\<lambda>p. True), now = seconds 200,
      destInit = Map.empty,
      mdParse = (\<lambda>p src. demoDoc src),
      mdRender = (\<lambda>src doc. Some src),
      ReplaceD2 = (\<lambda>h pairs. h),
      RenderMath = (\<lambda>h. (h, []))\<rparr>"

definition demoFlags :: Flags where
  "demoFlags = \<lparr>shouldForce = False, forceSocialRebuild = False, outputMissing = False\<rparr>"

text \<open>The context that is never cancelled, and the one cancelled from tick \<open>k\<close> on.\<close>

definition neverDone :: "nat \<Rightarrow> bool" where
  "neverDone t = False"

definition doneFrom :: "nat \<Rightarrow> nat \<Rightarrow> bool" where
  "doneFrom k t = (k \<le> t)"

text \<open>
  A small in-memory cache service for the concrete runs: it holds the given posts, minus
  those deleted, with those committed in front. Every post has cached HTML and a cached
  search record, and no call fails.
\<close>

fun applyCall :: "PostMeta list \<Rightarrow> cache_call \<Rightarrow> PostMeta list" where
  "applyCall ps (DeletePost pid) = filter (\<lambda>m. PostID m \<noteq> pid) ps"
| "applyCall ps (BatchCommit ms srs ds) =
     ms @ filter (\<lambda>m. PostID m \<notin> set (map PostID ms)) ps"
| "applyCall ps (SetSocialCardHash p h) = ps"
| "applyCall ps (StoreHTMLForPost m html) = ps"

definition livePosts :: "PostMeta list \<Rightarrow> cache_call list \<Rightarrow> PostMeta list" where
  "livePosts ps h = foldl applyCall ps h"

definition demoSearch :: SearchRecord where
  "demoSearch = \<lparr>sTitle = ''A'', sNormalizedTitle = ''a'', BM25Data = Map.empty,
     sDocLen = 0, sContent = [], sNormalizedTags = []\<rparr>"

definition memCache :: "PostMeta list \<Rightarrow> CacheService" where
  "memCache ps =
     \<lparr>GetPostByPath = (\<lambda>h p. Ok (find (\<lambda>m. Path m = p) (livePosts ps h))),
      GetPost = (\<lambda>h pid. Ok (find (\<lambda>m. PostID m = pid) (livePosts ps h))),
      ListAllPosts = Some (\<lambda>h. map PostID (livePosts ps h)),
      GetPostsByIDs = (\<lambda>h ids. filter (\<lambda>m. PostID m \<in> set ids) (livePosts ps h)),
      GetSocialCardHash = (\<lambda>h p. []),
      SetSocialCardHashOk = (\<lambda>h p x. True),
      GetHTMLContent = (\<lambda>h m. Ok (Some ''cached'')),
      GetSearchRecord = (\<lambda>h pid. Ok (Some demoSearch)),
      StoreHTMLForPostRes = (\<lambda>h m html. (m, True)),
      BatchCommitOk = (\<lambda>h ms. True)\<rparr>"

text \<open>The cached entry of \<open>a.md\<close>, written by an earlier build at second \<open>t\<close> from the
  source \<open>src\<close>, with the given draft flag.\<close>

definition demoMeta :: "int \<Rightarrow> string \<Rightarrow> bool \<Rightarrow> PostMeta" where
  "demoMeta t src d =
     \<lparr>PostID = ''a.md'', Path = ''a.md'', ModTime = t, ContentHash = ''f:A'',
      BodyHash = ''h:'' @ src, mTitle = ''A'', mDate = zeroTime, mTags = [],
      mReadingTime = 0, mDescription = [], mLink = ''/a.html'', mPinned = False,
      mWeight = 0, mDraft = d, Meta = [''title'' \<mapsto> VString ''A''], TOC = [],
      mVersion = [], SSRInputHashes = []\<rparr>"

text \<open>The site with \<open>a.md\<close> in the cache.\<close>

definition cachedService :: "int \<Rightarrow> string \<Rightarrow> bool \<Rightarrow> Service" where
  "cachedService t src d = demoService\<lparr>cache := Some (memCache [demoMeta t src d])\<rparr>"

text \<open>The cached post has since been edited into a draft: the source now starts
  with \<open>D\<close>.\<close>

definition editedToDraftService :: Service where
  "editedToDraftService =
     (cachedService 50 ''hello'' False)
       \<lparr>srcReadFile := (\<lambda>p. if p = ''c/a.md'' then Some ''Draft'' else None)\<rparr>"

text \<open>The site with an output file \<open>o/a.html\<close> written at second 150, after the
  source.\<close>

definition freshInfo :: FileInfo where
  "freshInfo = \<lparr>fModTime = seconds 150, fSize = 1, fIsDir = False\<rparr>"

definition freshService :: Service where
  "freshService = demoService\<lparr>osStat := (\<lambda>p. StatOk freshInfo)\<rparr>"

text \<open>The site with one configured version, \<open>v2\<close>, marked latest; \<open>a.md\<close> lies at the
  content root and has no version.\<close>

definition versionedService :: Service where
  "versionedService =
     demoService\<lparr>cfg := demoCfg\<lparr>Versions := [\<lparr>vName = ''v2'', IsLatest = True\<rparr>]\<rparr>\<rparr>"

text \<open>The site with an empty cache and a second file \<open>c/b.md\<close>, which the walk reports
  but which can be neither stat'ed nor read.\<close>

definition twoFileService :: Service where
  "twoFileService =
     demoService\<lparr>cache := Some (memCache []),
                  srcWalk := [(''c/a.md'', False), (''c/b.md'', False)]\<rparr>"

text \<open>The site with two posts that can both be read: \<open>c/a.md\<close> and \<open>c/b.md\<close>.\<close>

definition twoPostService :: Service where
  "twoPostService =
     demoService\<lparr>srcWalk := [(''c/a.md'', False), (''c/b.md'', False)],
                  srcStat := (\<lambda>p. if p = ''c/a.md'' \<or> p = ''c/b.md'' then Some demoInfo else None),
                  srcReadFile := (\<lambda>p. if p = ''c/a.md'' then Some ''hello''
                                       else if p = ''c/b.md'' then Some ''world'' else None)\<rparr>"

text \<open>The site with a file \<open>c/huge.md\<close> of 11 MiB in front of \<open>c/a.md\<close>.\<close>

definition hugeInfo :: FileInfo where
  "hugeInfo = \<lparr>fModTime = seconds 100, fSize = 11 * 1024 * 1024, fIsDir = False\<rparr>"

definition hugeFirstService :: Service where
  "hugeFirstService =
     demoService\<lparr>srcWalk := [(''c/huge.md'', False), (''c/a.md'', False)],
                  srcStat := (\<lambda>p. if p = ''c/huge.md'' then Some hugeInfo
                                   else if p = ''c/a.md'' then Some demoInfo else None)\<rparr>"

text \<open>The site with the raw-source mirror enabled and a draft \<open>a.md\<close>.\<close>

definition draftRawService :: Service where
  "draftRawService =
     demoService\<lparr>cfg := demoCfg\<lparr>RawMarkdown := True\<rparr>,
                  srcReadFile := (\<lambda>p. if p = ''c/a.md'' then Some ''Draft'' else None)\<rparr>"

text \<open>The site where the walk reports \<open>c/a.md\<close> \<open>n\<close> times and every output file is
  newer than its source: \<open>n\<close> posts, all processed alike.\<close>

definition manyFilesService :: "nat \<Rightarrow> Service" where
  "manyFilesService n = freshService\<lparr>srcWalk := replicate n (''c/a.md'', False)\<rparr>"

text \<open>A builder in watch mode over the same site: the cache holds \<open>a.md\<close> as built
  from the source \<open>hello\<close>, and the file now reads \<open>hello world\<close>.\<close>

definition demoBuilder :: Builder where
  "demoBuilder =
     \<lparr>bContentDir = ''c'',
      bReadFile = (\<lambda>p. if p = ''c/a.md'' then Some ''hello world'' else None),
      bFrontMatter = (\<lambda>p src. [''title'' \<mapsto> VString ''A'']),
      bGetFrontmatterHash = GetFrontmatterHash demoLib,
      bGetBodyHash = GetBodyHash demoLib,
      bSafeRel = SafeRel demoLib,
      bCacheService = Some (memCache [demoMeta 50 ''hello'' False]),
      bCacheHistory = [],
      bBuildOk = True,
      bProcessSingleOk = (\<lambda>p. True)\<rparr>"

section \<open>Theorems\<close>

subsection \<open>Steps of a worker: what they change and what they leave\<close>

lemma logMsg_frame [simp]:
  "allMetadataMap (logMsg lv msg p st) = allMetadataMap st"
  "newPostsMeta (logMsg lv msg p st) = newPostsMeta st"
  "newSearchRecords (logMsg lv msg p st) = newSearchRecords st"
  "newDeps (logMsg lv msg p st) = newDeps st"
  "indexedPosts (logMsg lv msg p st) = indexedPosts st"
  "indexedPostIdx (logMsg lv msg p st) = indexedPostIdx st"
  "renderQueue (logMsg lv msg p st) = renderQueue st"
  "cardTasks (logMsg lv msg p st) = cardTasks st"
  "anyPostChanged (logMsg lv msg p st) = anyPostChanged st"
  "destFs (logMsg lv msg p st) = destFs st"
  "cacheCalls (logMsg lv msg p st) = cacheCalls st"
  by (simp_all add: logMsg_def)

lemma MkdirAll_frame [simp]:
  "allMetadataMap (MkdirAll s msg d st) = allMetadataMap st"
  "newPostsMeta (MkdirAll s msg d st) = newPostsMeta st"
  "newSearchRecords (MkdirAll s msg d st) = newSearchRecords st"
  "newDeps (MkdirAll s msg d st) = newDeps st"
  "indexedPosts (MkdirAll s msg d st) = indexedPosts st"
  "indexedPostIdx (MkdirAll s msg d st) = indexedPostIdx st"
  "renderQueue (MkdirAll s msg d st) = renderQueue st"
  "cardTasks (MkdirAll s msg d st) = cardTasks st"
  "anyPostChanged (MkdirAll s msg d st) = anyPostChanged st"
  "cacheCalls (MkdirAll s msg d st) = cacheCalls st"
  by (simp_all add: MkdirAll_def split: option.splits)

lemma WriteFile_frame [simp]:
  "allMetadataMap (WriteFile s msg p data st) = allMetadataMap st"
  "newPostsMeta (WriteFile s msg p data st) = newPostsMeta st"
  "newSearchRecords (WriteFile s msg p data st) = newSearchRecords st"
  "newDeps (WriteFile s msg p data st) = newDeps st"
  "indexedPosts (WriteFile s msg p data st) = indexedPosts st"
  "indexedPostIdx (WriteFile s msg p data st) = indexedPostIdx st"
  "renderQueue (WriteFile s msg p data st) = renderQueue st"
  "cardTasks (WriteFile s msg p data st) = cardTasks st"
  "anyPostChanged (WriteFile s msg p data st) = anyPostChanged st"
  "cacheCalls (WriteFile s msg p data st) = cacheCalls st"
  by (simp_all add: WriteFile_def)

lemma writeRawOnMiss_frame [simp]:
  "allMetadataMap (writeRawOnMiss s lib p src st) = allMetadataMap st"
  "newPostsMeta (writeRawOnMiss s lib p src st) = newPostsMeta st"
  "newSearchRecords (writeRawOnMiss s lib p src st) = newSearchRecords st"
  "newDeps (writeRawOnMiss s lib p src st) = newDeps st"
  "indexedPosts (writeRawOnMiss s lib p src st) = indexedPosts st"
  "indexedPostIdx (writeRawOnMiss s lib p src st) = indexedPostIdx st"
  "renderQueue (writeRawOnMiss s lib p src st) = renderQueue st"
  "cardTasks (writeRawOnMiss s lib p src st) = cardTasks st"
  "anyPostChanged (writeRawOnMiss s lib p src st) = anyPostChanged st"
  "cacheCalls (writeRawOnMiss s lib p src st) = cacheCalls st"
  by (simp_all add: writeRawOnMiss_def Let_def)

lemma writeRawIfMissing_frame [simp]:
  "allMetadataMap (writeRawIfMissing s lib p path st) = allMetadataMap st"
  "newPostsMeta (writeRawIfMissing s lib p path st) = newPostsMeta st"
  "newSearchRecords (writeRawIfMissing s lib p path st) = newSearchRecords st"
  "newDeps (writeRawIfMissing s lib p path st) = newDeps st"
  "indexedPosts (writeRawIfMissing s lib p path st) = indexedPosts st"
  "indexedPostIdx (writeRawIfMissing s lib p path st) = indexedPostIdx st"
  "renderQueue (writeRawIfMissing s lib p path st) = renderQueue st"
  "cardTasks (writeRawIfMissing s lib p path st) = cardTasks st"
  "anyPostChanged (writeRawIfMissing s lib p path st) = anyPostChanged st"
  "cacheCalls (writeRawIfMissing s lib p path st) = cacheCalls st"
  by (simp_all add: writeRawIfMissing_def Let_def split: option.splits)

lemma socialCard_frame [simp]:
  "allMetadataMap (socialCard s lib fl p path ch c st) = allMetadataMap st"
  "newPostsMeta (socialCard s lib fl p path ch c st) = newPostsMeta st"
  "newSearchRecords (socialCard s lib fl p path ch c st) = newSearchRecords st"
  "newDeps (socialCard s lib fl p path ch c st) = newDeps st"
  "indexedPosts (socialCard s lib fl p path ch c st) = indexedPosts st"
  "indexedPostIdx (socialCard s lib fl p path ch c st) = indexedPostIdx st"
  "renderQueue (socialCard s lib fl p path ch c st) = renderQueue st"
  "anyPostChanged (socialCard s lib fl p path ch c st) = anyPostChanged st"
  by (simp_all add: socialCard_def Let_def split: option.splits)

lemma resolveContent_frame:
  assumes "resolveContent s lib p path version source loaded st = r"
    and "r = Inl st' \<or> r = Inr (st', c)"
  shows "allMetadataMap st' = allMetadataMap st"
    and "newPostsMeta st' = newPostsMeta st"
    and "newSearchRecords st' = newSearchRecords st"
    and "newDeps st' = newDeps st"
    and "indexedPosts st' = indexedPosts st"
    and "indexedPostIdx st' = indexedPostIdx st"
    and "renderQueue st' = renderQueue st"
    and "cardTasks st' = cardTasks st"
    and "anyPostChanged st' = anyPostChanged st"
    and "cacheCalls st' = cacheCalls st"
  using assms
  by (auto simp: resolveContent_def missContent_def Let_def split: option.splits prod.splits)

lemma enqueueRender_frame:
  assumes "enqueueRender wr idx rc st = Inr st'"
  shows "allMetadataMap st' = allMetadataMap st"
    and "newPostsMeta st' = newPostsMeta st"
    and "newSearchRecords st' = newSearchRecords st"
    and "newDeps st' = newDeps st"
    and "indexedPosts st' = indexedPosts st"
    and "indexedPostIdx st' = indexedPostIdx st"
    and "cardTasks st' = cardTasks st"
    and "destFs st' = destFs st"
    and "cacheCalls st' = cacheCalls st"
    and "length (renderQueue st') = length (renderQueue st)"
  using assms by (auto simp: enqueueRender_def split: if_splits)

lemma publish_frame:
  assumes "publish c st = Inr st'"
  shows "newPostsMeta st' = newPostsMeta st"
    and "newSearchRecords st' = newSearchRecords st"
    and "newDeps st' = newDeps st"
    and "renderQueue st' = renderQueue st"
    and "anyPostChanged st' = anyPostChanged st"
    and "cardTasks st' = cardTasks st"
    and "destFs st' = destFs st"
    and "cacheCalls st' = cacheCalls st"
    and "length (indexedPosts st') = length (indexedPosts st)"
  using assms by (auto simp: publish_def Let_def split: if_splits)

lemma stage_frame:
  assumes "stage s lib p version bodyHash info useCache c st = Inr st'"
  shows "allMetadataMap st' = allMetadataMap st"
    and "indexedPosts st' = indexedPosts st"
    and "indexedPostIdx st' = indexedPostIdx st"
    and "renderQueue st' = renderQueue st"
    and "anyPostChanged st' = anyPostChanged st"
    and "cardTasks st' = cardTasks st"
    and "destFs st' = destFs st"
  using assms by (auto simp: stage_def Let_def split: if_splits option.splits)

subsection \<open>Where a worker can leave\<close>

lemma finish_cases:
  assumes "finish s lib fl d idx path version p cachedHash bodyHash info useCache c st = Inr (ex, st')"
  obtains wr st2 st3 info' where
    "info' = (if outputMissing fl \<or> useCache then info
              else (case info of None \<Rightarrow> srcStat s path | Some i \<Rightarrow> Some i))"
    "willRender fl useCache (osStat s (destPath p)) info' = Some wr"
    "enqueueRender wr idx (renderContextOf s lib p version c)
       (writeRawIfMissing s lib p path (socialCard s lib fl p path cachedHash c st)) = Inr st2"
    "publish c st2 = Inr st3"
    "(d \<and> ex = ExitCancelled \<and> st' = st3) \<or>
     (\<not> d \<and> ex = ExitDone \<and>
        (\<exists>st4. stage s lib p version bodyHash info' useCache c st3 = Inr st4 \<and>
           st' = st4\<lparr>postsProcessed := postsProcessed st4 + 1,
                          processedCount := processedCount st4 + 1\<rparr>))"
  using assms unfolding finish_def Let_def
  by (auto split: option.splits sum.splits if_splits)

lemma worker_cases:
  assumes "worker s lib fl d st (idx, path, version) = Inr (ex, st')"
  obtains
    (oversize) i where
      "cacheProbe s lib fl (cacheCalls st) path (relPath (derivePaths s lib path version)) = Oversize i"
      "ex = ExitOversize"
      "st' = logMsg Warn ''File exceeds size limit, skipping'' path st"
  | (renderError) cm info source bodyHash useCache0 where
      "cacheProbe s lib fl (cacheCalls st) path (relPath (derivePaths s lib path version))
         = Probed cm info source bodyHash useCache0"
      "resolveContent s lib (derivePaths s lib path version) path version source
         (loadCached s (cacheCalls st) cm useCache0) st = Inl st'"
      "ex = ExitRenderError"
  | (draft) cm info source bodyHash useCache0 c where
      "cacheProbe s lib fl (cacheCalls st) path (relPath (derivePaths s lib path version))
         = Probed cm info source bodyHash useCache0"
      "resolveContent s lib (derivePaths s lib path version) path version source
         (loadCached s (cacheCalls st) cm useCache0) st = Inr (st', c)"
      "Draft (post c)" "\<not> IncludeDrafts (cfg s)"
      "ex = ExitDraft"
  | (finished) cm info source bodyHash useCache0 c st1 where
      "cacheProbe s lib fl (cacheCalls st) path (relPath (derivePaths s lib path version))
         = Probed cm info source bodyHash useCache0"
      "resolveContent s lib (derivePaths s lib path version) path version source
         (loadCached s (cacheCalls st) cm useCache0) st = Inr (st1, c)"
      "\<not> (Draft (post c) \<and> \<not> IncludeDrafts (cfg s))"
      "finish s lib fl d idx path version (derivePaths s lib path version)
         (cachedHashOf s (cacheCalls st) (relPath (derivePaths s lib path version)) cm useCache0)
         bodyHash info (loadCached s (cacheCalls st) cm useCache0 \<noteq> None) c st1 = Inr (ex, st')"
  using assms unfolding worker_def Let_def
  by (auto split: probe.splits sum.splits if_splits prod.splits)

subsection \<open>The \<open>int32\<close> counter\<close>

lemma sint_succ32:
  fixes c :: "32 word"
  assumes "sint c < 2147483647"
  shows "sint (c + 1) = sint c + 1"
proof -
  have lo: "- (2 ^ 31) \<le> sint c" using sint_ge [of c] by simp
  have "sint (c + 1) = signed_take_bit 31 (sint c + 1)"
    by (simp add: sint_word_ariths)
  also have "\<dots> = sint c + 1"
    using lo assms by (intro signed_take_bit_int_eq_self) simp_all
  finally show ?thesis .
qed

lemma sint_succ32_max:
  fixes c :: "32 word"
  assumes "sint c = 2147483647"
  shows "sint (c + 1) = - 2147483648"
proof -
  have "c = word_of_int (sint c)" by simp
  then have "c = 2147483647" using assms by simp
  then show ?thesis by simp
qed

lemma publish_counter:
  assumes "publish c st = Inr st'"
  shows "indexedPostIdx st' = indexedPostIdx st + 1"
    and "0 \<le> sint (indexedPostIdx st + 1)"
    and "sint (indexedPostIdx st + 1) < int (length (indexedPosts st))"
    and "\<exists>r. indexedPosts st' = (indexedPosts st)[nat (sint (indexedPostIdx st + 1)) := r]
           \<and> ID (Record r) = sint (indexedPostIdx st + 1)"
  using assms by (auto simp: publish_def Let_def split: if_splits)

lemma finish_counter:
  assumes "finish s lib fl d idx path version p cachedHash bodyHash info useCache c st = Inr (ex, st')"
  shows "reachedPublish ex"
    and "indexedPostIdx st' = indexedPostIdx st + 1"
    and "0 \<le> sint (indexedPostIdx st + 1)"
    and "sint (indexedPostIdx st + 1) < int (length (indexedPosts st))"
    and "\<exists>r. indexedPosts st' = (indexedPosts st)[nat (sint (indexedPostIdx st + 1)) := r]
           \<and> ID (Record r) = sint (indexedPostIdx st + 1)"
proof -
  from assms obtain wr st2 st3 info' where
    enq: "enqueueRender wr idx (renderContextOf s lib p version c)
       (writeRawIfMissing s lib p path (socialCard s lib fl p path cachedHash c st)) = Inr st2"
    and pub: "publish c st2 = Inr st3"
    and fin: "(d \<and> ex = ExitCancelled \<and> st' = st3) \<or>
     (\<not> d \<and> ex = ExitDone \<and>
        (\<exists>st4. stage s lib p version bodyHash info' useCache c st3 = Inr st4 \<and>
           st' = st4\<lparr>postsProcessed := postsProcessed st4 + 1,
                          processedCount := processedCount st4 + 1\<rparr>))"
    by (rule finish_cases)
  have a: "indexedPostIdx st2 = indexedPostIdx st" "indexedPosts st2 = indexedPosts st"
    using enqueueRender_frame [OF enq] by simp_all
  have b: "indexedPostIdx st' = indexedPostIdx st3" "indexedPosts st' = indexedPosts st3"
    using fin stage_frame by auto
  show "reachedPublish ex" using fin by auto
  show "indexedPostIdx st' = indexedPostIdx st + 1"
    using publish_counter(1) [OF pub] a b by simp
  show "0 \<le> sint (indexedPostIdx st + 1)"
    using publish_counter(2) [OF pub] a by simp
  show "sint (indexedPostIdx st + 1) < int (length (indexedPosts st))"
    using publish_counter(3) [OF pub] a by simp
  show "\<exists>r. indexedPosts st' = (indexedPosts st)[nat (sint (indexedPostIdx st + 1)) := r]
           \<and> ID (Record r) = sint (indexedPostIdx st + 1)"
    using publish_counter(4) [OF pub] a b by simp
qed

lemma worker_counter:
  assumes "worker s lib fl d st (idx, path, version) = Inr (ex, st')"
  shows "if reachedPublish ex
         then indexedPostIdx st' = indexedPostIdx st + 1
            \<and> 0 \<le> sint (indexedPostIdx st + 1)
            \<and> sint (indexedPostIdx st + 1) < int (length (indexedPosts st))
            \<and> (\<exists>r. indexedPosts st' = (indexedPosts st)[nat (sint (indexedPostIdx st + 1)) := r]
                  \<and> ID (Record r) = sint (indexedPostIdx st + 1))
         else indexedPostIdx st' = indexedPostIdx st \<and> indexedPosts st' = indexedPosts st"
  using assms
proof (cases rule: worker_cases)
  case (oversize i)
  then show ?thesis by simp
next
  case (renderError cm info source bodyHash useCache0)
  then show ?thesis using resolveContent_frame(5,6) [OF renderError(2)] by simp
next
  case (draft cm info source bodyHash useCache0 c)
  then show ?thesis using resolveContent_frame(5,6) [OF draft(2)] by simp
next
  case (finished cm info source bodyHash useCache0 c st1)
  have a: "indexedPosts st1 = indexedPosts st" "indexedPostIdx st1 = indexedPostIdx st"
    using resolveContent_frame(5,6) [OF finished(2)] by simp_all
  show ?thesis using finish_counter [OF finished(4)] a by simp
qed

lemma worker_lengths:
  assumes "worker s lib fl d st (idx, path, version) = Inr (ex, st')"
  shows "length (indexedPosts st') = length (indexedPosts st)"
    and "length (renderQueue st') = length (renderQueue st)"
proof -
  show "length (indexedPosts st') = length (indexedPosts st)"
    using worker_counter [OF assms] by (auto split: if_splits)
  show "length (renderQueue st') = length (renderQueue st)"
    using assms
  proof (cases rule: worker_cases)
    case (oversize i)
    then show ?thesis by simp
  next
    case (renderError cm info source bodyHash useCache0)
    then show ?thesis using resolveContent_frame(7) [OF renderError(2)] by simp
  next
    case (draft cm info source bodyHash useCache0 c)
    then show ?thesis using resolveContent_frame(7) [OF draft(2)] by simp
  next
    case (finished cm info source bodyHash useCache0 c st1)
    have a: "renderQueue st1 = renderQueue st"
      using resolveContent_frame(7) [OF finished(2)] by simp
    from finished(4) obtain wr st2 st3 info' where
      enq: "enqueueRender wr idx (renderContextOf s lib (derivePaths s lib path version) version c)
         (writeRawIfMissing s lib (derivePaths s lib path version) path
           (socialCard s lib fl (derivePaths s lib path version) path
             (cachedHashOf s (cacheCalls st) (relPath (derivePaths s lib path version)) cm useCache0)
             c st1)) = Inr st2"
      and pub: "publish c st2 = Inr st3"
      and fin: "(d \<and> ex = ExitCancelled \<and> st' = st3) \<or>
       (\<not> d \<and> ex = ExitDone \<and>
          (\<exists>st4. stage s lib (derivePaths s lib path version) version bodyHash info'
                    (loadCached s (cacheCalls st) cm useCache0 \<noteq> None) c st3 = Inr st4 \<and>
             st' = st4\<lparr>postsProcessed := postsProcessed st4 + 1,
                            processedCount := processedCount st4 + 1\<rparr>))"
      by (rule finish_cases)
    have "length (renderQueue st2) = length (renderQueue st1)"
      using enqueueRender_frame(10) [OF enq] by simp
    moreover have "renderQueue st3 = renderQueue st2"
      using publish_frame(4) [OF pub] .
    moreover have "renderQueue st' = renderQueue st3"
      using fin stage_frame(4) by auto
    ultimately show ?thesis using a by simp
  qed
qed

lemma finish_in_bounds:
  assumes "idx < length (renderQueue st)"
    and "0 \<le> sint (indexedPostIdx st + 1)"
    and "sint (indexedPostIdx st + 1) < int (length (indexedPosts st))"
  shows "finish s lib fl d idx path version p cachedHash bodyHash info useCache c st
           \<noteq> Inl (IndexOutOfRange, stp)"
  using assms unfolding finish_def Let_def
  by (auto simp: enqueueRender_def publish_def stage_def Let_def
      split: option.splits sum.splits if_splits)

lemma worker_in_bounds:
  assumes "idx < length (renderQueue st)"
    and "0 \<le> sint (indexedPostIdx st + 1)"
    and "sint (indexedPostIdx st + 1) < int (length (indexedPosts st))"
  shows "worker s lib fl d st (idx, path, version) \<noteq> Inl (IndexOutOfRange, stp)"
proof
  assume w: "worker s lib fl d st (idx, path, version) = Inl (IndexOutOfRange, stp)"
  then obtain cm info source bodyHash useCache0 c st1 where
    rc: "resolveContent s lib (derivePaths s lib path version) path version source
         (loadCached s (cacheCalls st) cm useCache0) st = Inr (st1, c)"
    and f: "finish s lib fl d idx path version (derivePaths s lib path version)
         (cachedHashOf s (cacheCalls st) (relPath (derivePaths s lib path version)) cm useCache0)
         bodyHash info (loadCached s (cacheCalls st) cm useCache0 \<noteq> None) c st1
           = Inl (IndexOutOfRange, stp)"
    unfolding worker_def Let_def
    by (auto split: probe.splits sum.splits if_splits prod.splits)
  have "renderQueue st1 = renderQueue st" "indexedPosts st1 = indexedPosts st"
    "indexedPostIdx st1 = indexedPostIdx st"
    using resolveContent_frame(5,6,7) [OF rc] by simp_all
  then show False using finish_in_bounds [of idx st1] assms f by simp
qed

lemma worker_dense:
  assumes w: "worker s lib fl d st (idx, path, version) = Inr (ex, st')"
    and c: "sint (indexedPostIdx st) = int k - 1"
    and k: "k \<le> length (indexedPosts st)"
    and ids: "\<forall>j<k. ID (Record (indexedPosts st ! j)) = int j"
  shows "sint (indexedPostIdx st') = int (k + (if reachedPublish ex then 1 else 0)) - 1
       \<and> k + (if reachedPublish ex then 1 else 0) \<le> length (indexedPosts st')
       \<and> (\<forall>j < k + (if reachedPublish ex then 1 else 0). ID (Record (indexedPosts st' ! j)) = int j)"
proof (cases "reachedPublish ex")
  case False
  then show ?thesis using worker_counter [OF w] c k ids by simp
next
  case True
  with worker_counter [OF w] obtain r where
    i: "indexedPostIdx st' = indexedPostIdx st + 1"
    and lo: "0 \<le> sint (indexedPostIdx st + 1)"
    and hi: "sint (indexedPostIdx st + 1) < int (length (indexedPosts st))"
    and upd: "indexedPosts st' = (indexedPosts st)[nat (sint (indexedPostIdx st + 1)) := r]"
    and rid: "ID (Record r) = sint (indexedPostIdx st + 1)"
    by auto
  have "sint (indexedPostIdx st) \<le> 2147483647" using sint_lt [of "indexedPostIdx st"] by simp
  moreover have "sint (indexedPostIdx st) \<noteq> 2147483647"
    using sint_succ32_max [of "indexedPostIdx st"] lo by auto
  ultimately have "sint (indexedPostIdx st) < 2147483647" by simp
  then have s1: "sint (indexedPostIdx st + 1) = int k" using sint_succ32 c by simp
  have kl: "k < length (indexedPosts st)" using hi s1 by simp
  have "\<forall>j < k + 1. ID (Record (indexedPosts st' ! j)) = int j"
  proof (intro allI impI)
    fix j assume "j < k + 1"
    then consider "j < k" | "j = k" by linarith
    then show "ID (Record (indexedPosts st' ! j)) = int j"
    proof cases
      case 1
      then show ?thesis using upd s1 ids by simp
    next
      case 2
      then show ?thesis using upd s1 rid kl by simp
    qed
  qed
  then show ?thesis using True i s1 kl upd by simp
qed

lemma runTasks_dense:
  assumes "runTasks s lib fl ctx st ts = Inr (exs, st')"
    and "sint (indexedPostIdx st) = int k - 1"
    and "k \<le> length (indexedPosts st)"
    and "\<forall>j<k. ID (Record (indexedPosts st ! j)) = int j"
  shows "sint (indexedPostIdx st') = int (k + length (filter reachedPublish exs)) - 1
       \<and> k + length (filter reachedPublish exs) \<le> length (indexedPosts st')
       \<and> (\<forall>j < k + length (filter reachedPublish exs). ID (Record (indexedPosts st' ! j)) = int j)
       \<and> length exs \<le> length ts"
  using assms
proof (induction ts arbitrary: st k exs)
  case Nil
  then show ?case by simp
next
  case (Cons t ts)
  show ?case
  proof (cases "ctx (2 * fst t)")
    case True
    with Cons.prems show ?thesis by simp
  next
    case False
    obtain idx path version where t: "t = (idx, path, version)" by (cases t) auto
    from Cons.prems(1) False obtain ex st1 exs1 where
      w: "worker s lib fl (ctx (2 * fst t + 1)) st t = Inr (ex, st1)"
      and r: "runTasks s lib fl ctx st1 ts = Inr (exs1, st')"
      and e: "exs = ex # exs1"
      by (auto split: sum.splits prod.splits)
    let ?k1 = "k + (if reachedPublish ex then 1 else 0)"
    have d: "sint (indexedPostIdx st1) = int ?k1 - 1 \<and> ?k1 \<le> length (indexedPosts st1)
       \<and> (\<forall>j < ?k1. ID (Record (indexedPosts st1 ! j)) = int j)"
      using worker_dense [OF w [unfolded t] Cons.prems(2,3,4)] .
    have "sint (indexedPostIdx st') = int (?k1 + length (filter reachedPublish exs1)) - 1
       \<and> ?k1 + length (filter reachedPublish exs1) \<le> length (indexedPosts st')
       \<and> (\<forall>j < ?k1 + length (filter reachedPublish exs1). ID (Record (indexedPosts st' ! j)) = int j)
       \<and> length exs1 \<le> length ts"
      using Cons.IH [OF r] d by blast
    then show ?thesis using e by (cases "reachedPublish ex") simp_all
  qed
qed

lemma runTasks_lengths:
  assumes "runTasks s lib fl ctx st ts = Inr (exs, st')"
  shows "length (indexedPosts st') = length (indexedPosts st)"
  using assms
proof (induction ts arbitrary: st exs)
  case Nil
  then show ?case by simp
next
  case (Cons t ts)
  obtain idx path version where t: "t = (idx, path, version)" by (cases t) auto
  show ?case
  proof (cases "ctx (2 * fst t)")
    case True
    with Cons.prems show ?thesis by simp
  next
    case False
    from Cons.prems False obtain ex st1 exs1 where
      w: "worker s lib fl (ctx (2 * fst t + 1)) st t = Inr (ex, st1)"
      and r: "runTasks s lib fl ctx st1 ts = Inr (exs1, st')"
      by (auto split: sum.splits prod.splits)
    show ?thesis using Cons.IH [OF r] worker_lengths(1) [OF w [unfolded t]] by simp
  qed
qed

lemma runTasks_in_bounds:
  assumes "sint (indexedPostIdx st) = int k - 1"
    and "k + length ts \<le> length (indexedPosts st)"
    and "length (indexedPosts st) \<le> 2147483648"
    and "\<forall>t\<in>set ts. fst t < length (renderQueue st)"
    and "\<forall>j<k. ID (Record (indexedPosts st ! j)) = int j"
  shows "runTasks s lib fl ctx st ts \<noteq> Inl (IndexOutOfRange, stp)"
  using assms
proof (induction ts arbitrary: st k)
  case Nil
  then show ?case by simp
next
  case (Cons t ts)
  obtain idx path version where t: "t = (idx, path, version)" by (cases t) auto
  have "sint (indexedPostIdx st) < 2147483647" using Cons.prems(1,2,3) by simp
  then have s1: "sint (indexedPostIdx st + 1) = int k" using sint_succ32 Cons.prems(1) by simp
  have nb: "worker s lib fl (ctx (2 * fst t + 1)) st t \<noteq> Inl (IndexOutOfRange, stp)"
    unfolding t using worker_in_bounds [of idx st] Cons.prems(2,4) s1 t by simp
  show ?case
  proof
    assume bad: "runTasks s lib fl ctx st (t # ts) = Inl (IndexOutOfRange, stp)"
    with nb obtain ex st1 where
      w: "worker s lib fl (ctx (2 * fst t + 1)) st t = Inr (ex, st1)"
      and r: "runTasks s lib fl ctx st1 ts = Inl (IndexOutOfRange, stp)"
      by (auto split: sum.splits prod.splits if_splits)
    let ?k1 = "k + (if reachedPublish ex then 1 else 0)"
    have kl: "k \<le> length (indexedPosts st)" using Cons.prems(2) by simp
    have d: "sint (indexedPostIdx st1) = int ?k1 - 1 \<and> ?k1 \<le> length (indexedPosts st1)
       \<and> (\<forall>j < ?k1. ID (Record (indexedPosts st1 ! j)) = int j)"
      using worker_dense [OF w [unfolded t] Cons.prems(1) kl Cons.prems(5)] .
    have l: "length (indexedPosts st1) = length (indexedPosts st)"
      "length (renderQueue st1) = length (renderQueue st)"
      using worker_lengths [OF w [unfolded t]] by simp_all
    have "runTasks s lib fl ctx st1 ts \<noteq> Inl (IndexOutOfRange, stp)"
    proof (rule Cons.IH [of st1 ?k1])
      show "sint (indexedPostIdx st1) = int ?k1 - 1" using d by blast
      show "?k1 + length ts \<le> length (indexedPosts st1)" using l Cons.prems(2) by simp
      show "length (indexedPosts st1) \<le> 2147483648" using l Cons.prems(3) by simp
      show "\<forall>t\<in>set ts. fst t < length (renderQueue st1)" using l Cons.prems(4) by simp
      show "\<forall>j < ?k1. ID (Record (indexedPosts st1 ! j)) = int j" using d by blast
    qed
    with r show False by simp
  qed
qed

subsection \<open>Sweep, warm-up and commit\<close>

lemma foldl_sweepStep_frame:
  "indexedPosts (foldl (sweepStep c ex) st ids) = indexedPosts st
 \<and> indexedPostIdx (foldl (sweepStep c ex) st ids) = indexedPostIdx st
 \<and> renderQueue (foldl (sweepStep c ex) st ids) = renderQueue st
 \<and> newPostsMeta (foldl (sweepStep c ex) st ids) = newPostsMeta st
 \<and> allMetadataMap (foldl (sweepStep c ex) st ids) = allMetadataMap st
 \<and> filter isBatchCommit (cacheCalls (foldl (sweepStep c ex) st ids))
      = filter isBatchCommit (cacheCalls st)"
proof (induction ids arbitrary: st)
  case Nil
  then show ?case by simp
next
  case (Cons pid ids)
  have "indexedPosts (sweepStep c ex st pid) = indexedPosts st
      \<and> indexedPostIdx (sweepStep c ex st pid) = indexedPostIdx st
      \<and> renderQueue (sweepStep c ex st pid) = renderQueue st
      \<and> newPostsMeta (sweepStep c ex st pid) = newPostsMeta st
      \<and> allMetadataMap (sweepStep c ex st pid) = allMetadataMap st
      \<and> filter isBatchCommit (cacheCalls (sweepStep c ex st pid))
          = filter isBatchCommit (cacheCalls st)"
    by (simp add: sweepStep_def split: result.splits option.splits)
  then show ?case using Cons.IH [of "sweepStep c ex st pid"] by simp
qed

lemma sweep_frame:
  "indexedPosts (sweep s lib files st) = indexedPosts st"
  "indexedPostIdx (sweep s lib files st) = indexedPostIdx st"
  "renderQueue (sweep s lib files st) = renderQueue st"
  "newPostsMeta (sweep s lib files st) = newPostsMeta st"
  "allMetadataMap (sweep s lib files st) = allMetadataMap st"
  "filter isBatchCommit (cacheCalls (sweep s lib files st)) = filter isBatchCommit (cacheCalls st)"
  by (simp_all add: sweep_def foldl_sweepStep_frame split: option.splits)

lemma warmup_frame:
  "indexedPosts (warmup s st) = indexedPosts st"
  "indexedPostIdx (warmup s st) = indexedPostIdx st"
  "renderQueue (warmup s st) = renderQueue st"
  "newPostsMeta (warmup s st) = newPostsMeta st"
  "cacheCalls (warmup s st) = cacheCalls st"
  by (simp_all add: warmup_def split: option.splits)

lemma commit_frame:
  "indexedPosts (commit s st) = indexedPosts st"
  "indexedPostIdx (commit s st) = indexedPostIdx st"
  "newPostsMeta (commit s st) = newPostsMeta st"
  "newSearchRecords (commit s st) = newSearchRecords st"
  "newDeps (commit s st) = newDeps st"
  by (simp_all add: commit_def Let_def split: option.splits)

lemma Process_cases:
  assumes "Process s lib fl ctx = Inr out"
  obtains files has404 lg exs st1 where
    "walkContent s lib = (files, has404, lg)"
    "runTasks s lib fl ctx
       (warmup s (sweep s lib (map fst files) (initState s (length files) lg)))
       (tasksOf files) = Inr (exs, st1)"
    "exits out = exs"
    "final out = commit s st1"
    "IndexedPosts (result out) = indexedPosts (commit s st1)"
    "AllPosts (result out) = SortPosts (allPosts (groupAll s lib (allMetadataMap st1)))"
    "PinnedPosts (result out) = SortPosts (pinnedPosts (groupAll s lib (allMetadataMap st1)))"
  using assms unfolding Process_def Let_def
  by (auto split: prod.splits sum.splits)

lemma Process_atPanic:
  "Process s lib fl ctx = Inl e \<longleftrightarrow> (\<exists>st. atPanic s lib fl ctx = Some (e, st))"
  unfolding Process_def atPanic_def Let_def
  by (auto split: sum.splits prod.splits)

lemma start_state:
  "indexedPostIdx (warmup s (sweep s lib fs (initState s n lg))) = - 1"
  "indexedPosts (warmup s (sweep s lib fs (initState s n lg))) = replicate n zeroIndexedPost"
  "renderQueue (warmup s (sweep s lib fs (initState s n lg))) = replicate n zeroRenderContext"
  "newPostsMeta (warmup s (sweep s lib fs (initState s n lg))) = []"
  "filter isBatchCommit (cacheCalls (warmup s (sweep s lib fs (initState s n lg)))) = []"
  by (simp_all add: warmup_frame sweep_frame initState_def)

lemma tasksOf_facts:
  "length (tasksOf files) = length files"
  "\<forall>t\<in>set (tasksOf files). fst t < length files"
  by (auto simp: tasksOf_def in_set_zip)

subsection \<open>What the probe returns\<close>

lemma cacheProbe_Probed:
  assumes "cacheProbe s lib fl h path rel = Probed cm info source bodyHash useCache"
  shows "cm = candidate s h rel"
    and "info = srcStat s path"
    and "source = (case srcReadFile s path of None \<Rightarrow> [] | Some b \<Rightarrow> b)"
    and "bodyHash = GetBodyHash lib source"
    and "useCache = (existsByBody cm (existsByMtime cm (firstInfo s path cm)) bodyHash
                     \<and> \<not> shouldForce fl)"
  using assms unfolding cacheProbe_def Let_def firstInfo_def
  by (auto split: option.splits if_splits)

subsection \<open>Grouping into the main feed\<close>

lemma scanVersions_iff:
  "scanVersions vs ver acc \<longleftrightarrow> acc \<or> (\<exists>v\<in>set vs. IsLatest v \<and> ver = vName v)"
  by (induction vs) auto

lemma isLatestOrUnversioned_iff:
  "isLatestOrUnversioned cf p \<longleftrightarrow>
     Version p = [] \<or> (\<exists>v\<in>set (Versions cf). IsLatest v \<and> Version p = vName v)"
  by (auto simp: isLatestOrUnversioned_def scanVersions_iff)

lemma set_insertPost: "set (insertPost p ps) = insert p (set ps)"
  by (induction ps) auto

lemma set_SortPosts: "set (SortPosts ps) = set ps"
  by (induction ps) (simp_all add: SortPosts_def set_insertPost)

lemma groupStep_feed:
  "allPosts (groupStep s lib g kv)
     = allPosts g @ (if isLatestOrUnversioned (cfg s) (snd kv) \<and> \<not> Pinned (snd kv)
                     then [snd kv] else [])"
  "pinnedPosts (groupStep s lib g kv)
     = pinnedPosts g @ (if isLatestOrUnversioned (cfg s) (snd kv) \<and> Pinned (snd kv)
                        then [snd kv] else [])"
  by (simp_all add: groupStep_def Let_def)

lemma foldl_groupStep_feed:
  "allPosts (foldl (groupStep s lib) g m)
     = allPosts g @ filter (\<lambda>p. isLatestOrUnversioned (cfg s) p \<and> \<not> Pinned p) (map snd m)
 \<and> pinnedPosts (foldl (groupStep s lib) g m)
     = pinnedPosts g @ filter (\<lambda>p. isLatestOrUnversioned (cfg s) p \<and> Pinned p) (map snd m)"
proof (induction m arbitrary: g)
  case Nil
  then show ?case by simp
next
  case (Cons kv m)
  show ?case
    using Cons.IH [of "groupStep s lib g kv"] by (simp add: groupStep_feed)
qed

lemma groupAll_feed:
  "allPosts (groupAll s lib m)
     = filter (\<lambda>p. isLatestOrUnversioned (cfg s) p \<and> \<not> Pinned p) (map snd m)"
  "pinnedPosts (groupAll s lib m)
     = filter (\<lambda>p. isLatestOrUnversioned (cfg s) p \<and> Pinned p) (map snd m)"
  by (simp_all add: groupAll_def foldl_groupStep_feed)

lemma commit_map: "allMetadataMap (commit s st) = allMetadataMap st"
  by (simp add: commit_def Let_def split: option.splits)

subsection \<open>Leaving at the draft gate\<close>

lemma draft_exit_resolve:
  assumes "worker s lib fl d st (idx, path, version) = Inr (ExitDraft, st')"
  obtains cm info source bodyHash useCache0 c where
    "cacheProbe s lib fl (cacheCalls st) path (relPath (derivePaths s lib path version))
       = Probed cm info source bodyHash useCache0"
    "resolveContent s lib (derivePaths s lib path version) path version source
       (loadCached s (cacheCalls st) cm useCache0) st = Inr (st', c)"
    "Draft (post c)" "\<not> IncludeDrafts (cfg s)"
  using assms
proof (cases rule: worker_cases)
  case (finished cm info source bodyHash useCache0 c st1)
  have "reachedPublish ExitDraft" using finish_counter(1) [OF finished(4)] .
  then show ?thesis by simp
qed (simp_all add: that)

lemma draft_exit_frame:
  assumes "worker s lib fl d st (idx, path, version) = Inr (ExitDraft, st')"
  shows "renderQueue st' = renderQueue st"
    and "indexedPosts st' = indexedPosts st"
    and "indexedPostIdx st' = indexedPostIdx st"
    and "cardTasks st' = cardTasks st"
    and "allMetadataMap st' = allMetadataMap st"
    and "newPostsMeta st' = newPostsMeta st"
    and "newSearchRecords st' = newSearchRecords st"
    and "newDeps st' = newDeps st"
    and "cacheCalls st' = cacheCalls st"
    and "anyPostChanged st' = anyPostChanged st"
proof -
  from assms obtain cm info source bodyHash useCache0 c where
    r: "resolveContent s lib (derivePaths s lib path version) path version source
       (loadCached s (cacheCalls st) cm useCache0) st = Inr (st', c)"
    by (rule draft_exit_resolve)
  note f = resolveContent_frame [OF r]
  show "renderQueue st' = renderQueue st" using f(7) by simp
  show "indexedPosts st' = indexedPosts st" using f(5) by simp
  show "indexedPostIdx st' = indexedPostIdx st" using f(6) by simp
  show "cardTasks st' = cardTasks st" using f(8) by simp
  show "allMetadataMap st' = allMetadataMap st" using f(1) by simp
  show "newPostsMeta st' = newPostsMeta st" using f(2) by simp
  show "newSearchRecords st' = newSearchRecords st" using f(3) by simp
  show "newDeps st' = newDeps st" using f(4) by simp
  show "cacheCalls st' = cacheCalls st" using f(10) by simp
  show "anyPostChanged st' = anyPostChanged st" using f(9) by simp
qed

lemma writeRawOnMiss_written:
  assumes "RawMarkdown (cfg s)" and "WriteFileOk s (mdDestPathOf lib (destPath p))"
  shows "destFs (writeRawOnMiss s lib p source st) (mdDestPathOf lib (destPath p))
           = Some \<lparr>nIsDir = False, nModTime = now s, nContent = source\<rparr>"
  using assms by (simp add: writeRawOnMiss_def WriteFile_def Let_def)

subsection \<open>The value of \<open>willRender\<close>\<close>

lemma willRender_hit:
  "willRender fl True ds info = Some wr \<Longrightarrow> wr = (outputMissing fl \<or> ds = StatNotExist)"
  by (auto simp: willRender_def split: if_splits)

lemma willRender_miss:
  assumes "willRender fl False (osStat s dest)
             (if outputMissing fl then srcStat s path
              else (case srcStat s path of None \<Rightarrow> srcStat s path | Some i \<Rightarrow> Some i)) = Some wr"
  shows "wr = (outputMissing fl \<or> destStale s path dest)"
  using assms
  by (auto simp: willRender_def destStale_def split: if_splits stat_result.splits option.splits)

subsection \<open>Staging and cancellation\<close>

lemma socialCard_commits:
  "filter isBatchCommit (cacheCalls (socialCard s lib fl p path ch c st))
     = filter isBatchCommit (cacheCalls st)"
  by (simp add: socialCard_def Let_def split: option.splits)

lemma stage_staging:
  assumes "stage s lib p version bodyHash info useCache c st = Inr st'"
  shows "filter isBatchCommit (cacheCalls st') = filter isBatchCommit (cacheCalls st)"
    and "length (newPostsMeta st') \<le> Suc (length (newPostsMeta st))"
  using assms by (auto simp: stage_def Let_def split: if_splits option.splits)

lemma finish_staging:
  assumes "finish s lib fl d idx path version p cachedHash bodyHash info useCache c st = Inr (ex, st')"
  shows "filter isBatchCommit (cacheCalls st') = filter isBatchCommit (cacheCalls st)"
    and "if ex = ExitDone then length (newPostsMeta st') \<le> Suc (length (newPostsMeta st))
         else newPostsMeta st' = newPostsMeta st"
    and "d \<longrightarrow> ex \<noteq> ExitDone"
proof -
  from assms obtain wr st2 st3 info' where
    enq: "enqueueRender wr idx (renderContextOf s lib p version c)
       (writeRawIfMissing s lib p path (socialCard s lib fl p path cachedHash c st)) = Inr st2"
    and pub: "publish c st2 = Inr st3"
    and fin: "(d \<and> ex = ExitCancelled \<and> st' = st3) \<or>
     (\<not> d \<and> ex = ExitDone \<and>
        (\<exists>st4. stage s lib p version bodyHash info' useCache c st3 = Inr st4 \<and>
           st' = st4\<lparr>postsProcessed := postsProcessed st4 + 1,
                          processedCount := processedCount st4 + 1\<rparr>))"
    by (rule finish_cases)
  have a: "cacheCalls st3 = cacheCalls (socialCard s lib fl p path cachedHash c st)"
    "newPostsMeta st3 = newPostsMeta st"
    using enqueueRender_frame(2,9) [OF enq] publish_frame(1,8) [OF pub] by simp_all
  have sc: "filter isBatchCommit (cacheCalls st3) = filter isBatchCommit (cacheCalls st)"
    using a socialCard_commits [of s lib fl p path cachedHash c st] by simp
  from fin show "filter isBatchCommit (cacheCalls st') = filter isBatchCommit (cacheCalls st)"
  proof
    assume "d \<and> ex = ExitCancelled \<and> st' = st3"
    then show ?thesis using sc by simp
  next
    assume "\<not> d \<and> ex = ExitDone \<and>
        (\<exists>st4. stage s lib p version bodyHash info' useCache c st3 = Inr st4 \<and>
           st' = st4\<lparr>postsProcessed := postsProcessed st4 + 1,
                          processedCount := processedCount st4 + 1\<rparr>)"
    then obtain st4 where
      st: "stage s lib p version bodyHash info' useCache c st3 = Inr st4"
      and eq: "st' = st4\<lparr>postsProcessed := postsProcessed st4 + 1,
                          processedCount := processedCount st4 + 1\<rparr>"
      by blast
    show ?thesis using stage_staging(1) [OF st] sc eq by simp
  qed
  from fin show "if ex = ExitDone then length (newPostsMeta st') \<le> Suc (length (newPostsMeta st))
         else newPostsMeta st' = newPostsMeta st"
  proof
    assume "d \<and> ex = ExitCancelled \<and> st' = st3"
    then show ?thesis using a by simp
  next
    assume "\<not> d \<and> ex = ExitDone \<and>
        (\<exists>st4. stage s lib p version bodyHash info' useCache c st3 = Inr st4 \<and>
           st' = st4\<lparr>postsProcessed := postsProcessed st4 + 1,
                          processedCount := processedCount st4 + 1\<rparr>)"
    then obtain st4 where
      st: "stage s lib p version bodyHash info' useCache c st3 = Inr st4"
      and eq: "st' = st4\<lparr>postsProcessed := postsProcessed st4 + 1,
                          processedCount := processedCount st4 + 1\<rparr>"
      and ex: "ex = ExitDone"
      by blast
    show ?thesis using stage_staging(2) [OF st] a eq ex by simp
  qed
  show "d \<longrightarrow> ex \<noteq> ExitDone" using fin by auto
qed

lemma worker_staging:
  assumes "worker s lib fl d st (idx, path, version) = Inr (ex, st')"
  shows "filter isBatchCommit (cacheCalls st') = filter isBatchCommit (cacheCalls st)"
    and "if ex = ExitDone then length (newPostsMeta st') \<le> Suc (length (newPostsMeta st))
         else newPostsMeta st' = newPostsMeta st"
    and "d \<longrightarrow> ex \<noteq> ExitDone"
proof -
  have "filter isBatchCommit (cacheCalls st') = filter isBatchCommit (cacheCalls st)
      \<and> (if ex = ExitDone then length (newPostsMeta st') \<le> Suc (length (newPostsMeta st))
         else newPostsMeta st' = newPostsMeta st)
      \<and> (d \<longrightarrow> ex \<noteq> ExitDone)"
    using assms
  proof (cases rule: worker_cases)
    case (oversize i)
    then show ?thesis by simp
  next
    case (renderError cm info source bodyHash useCache0)
    then show ?thesis using resolveContent_frame(2,10) [OF renderError(2)] by simp
  next
    case (draft cm info source bodyHash useCache0 c)
    then show ?thesis using resolveContent_frame(2,10) [OF draft(2)] by simp
  next
    case (finished cm info source bodyHash useCache0 c st1)
    have "newPostsMeta st1 = newPostsMeta st" "cacheCalls st1 = cacheCalls st"
      using resolveContent_frame(2,10) [OF finished(2)] by simp_all
    then show ?thesis using finish_staging [OF finished(4)] by (auto split: if_splits)
  qed
  then show "filter isBatchCommit (cacheCalls st') = filter isBatchCommit (cacheCalls st)"
    and "if ex = ExitDone then length (newPostsMeta st') \<le> Suc (length (newPostsMeta st))
         else newPostsMeta st' = newPostsMeta st"
    and "d \<longrightarrow> ex \<noteq> ExitDone"
    by simp_all
qed

lemma runTasks_staging:
  assumes "runTasks s lib fl ctx st (zip [i ..< i + length fs] fs) = Inr (exs, st')"
  shows "filter isBatchCommit (cacheCalls st') = filter isBatchCommit (cacheCalls st)
       \<and> length (newPostsMeta st')
            \<le> length (newPostsMeta st) + length (filter (\<lambda>e. e = ExitDone) exs)
       \<and> (\<forall>k\<ge>i. ctx (2 * k) \<longrightarrow> length exs \<le> k - i)
       \<and> (\<forall>j<length exs. ctx (2 * (i + j) + 1) \<longrightarrow> exs ! j \<noteq> ExitDone)"
  using assms
proof (induction fs arbitrary: i st exs)
  case Nil
  then show ?case by simp
next
  case (Cons f fs)
  have z: "zip [i ..< i + length (f # fs)] (f # fs)
             = (i, f) # zip [Suc i ..< Suc i + length fs] fs"
    by (simp add: upt_conv_Cons del: upt_Suc)
  obtain path version where f: "f = (path, version)" by (cases f) auto
  show ?case
  proof (cases "ctx (2 * i)")
    case True
    with Cons.prems z show ?thesis by simp
  next
    case False
    from Cons.prems z False obtain ex st1 exs1 where
      w: "worker s lib fl (ctx (2 * i + 1)) st (i, f) = Inr (ex, st1)"
      and r: "runTasks s lib fl ctx st1 (zip [Suc i ..< Suc i + length fs] fs) = Inr (exs1, st')"
      and e: "exs = ex # exs1"
      by (auto split: sum.splits prod.splits)
    note ws = worker_staging [OF w [unfolded f]]
    note ih = Cons.IH [OF r]
    have 1: "filter isBatchCommit (cacheCalls st') = filter isBatchCommit (cacheCalls st)"
      using ih ws(1) by simp
    have 2: "length (newPostsMeta st')
            \<le> length (newPostsMeta st) + length (filter (\<lambda>e. e = ExitDone) exs)"
      using ih ws(2) e by (auto split: if_splits)
    have 3: "\<forall>k\<ge>i. ctx (2 * k) \<longrightarrow> length exs \<le> k - i"
    proof (intro allI impI)
      fix k assume k: "i \<le> k" "ctx (2 * k)"
      then have "k \<noteq> i" using False by auto
      then have "Suc i \<le> k" using k by simp
      then have "length exs1 \<le> k - Suc i" using ih k by blast
      then show "length exs \<le> k - i" using e \<open>Suc i \<le> k\<close> by simp
    qed
    have 4: "\<forall>j<length exs. ctx (2 * (i + j) + 1) \<longrightarrow> exs ! j \<noteq> ExitDone"
    proof (intro allI impI)
      fix j assume j: "j < length exs" "ctx (2 * (i + j) + 1)"
      show "exs ! j \<noteq> ExitDone"
      proof (cases j)
        case 0
        then show ?thesis using j ws(3) e by simp
      next
        case (Suc j')
        then have "j' < length exs1" "ctx (2 * (Suc i + j') + 1)" using j e by simp_all
        then have "exs1 ! j' \<noteq> ExitDone" using ih by blast
        then show ?thesis using Suc e by simp
      qed
    qed
    show ?thesis using 1 2 3 4 by blast
  qed
qed

lemma commit_calls:
  "filter isBatchCommit (cacheCalls (commit s st))
     = filter isBatchCommit (cacheCalls st) @
       (if cache s \<noteq> None \<and> newPostsMeta st \<noteq> []
        then [BatchCommit (newPostsMeta st) (newSearchRecords st) (newDeps st)] else [])"
  by (auto simp: commit_def Let_def split: option.splits)

subsection \<open>The raw-source mirror stays once written\<close>

lemma MkdirAll_keeps:
  "destFs st p = Some n \<Longrightarrow> destFs (MkdirAll s msg d st) p = Some n"
  by (auto simp: MkdirAll_def logMsg_def split: option.splits)

lemma socialCard_keeps:
  "destFs st p = Some n \<Longrightarrow> destFs (socialCard s lib fl pp path ch c st) p = Some n"
  by (auto simp: socialCard_def Let_def MkdirAll_keeps logMsg_def split: option.splits)

lemma writeRawIfMissing_keeps:
  assumes "destFs st (mdDestPathOf lib (destPath p))
             = Some \<lparr>nIsDir = False, nModTime = now s,
                      nContent = (case srcReadFile s path of None \<Rightarrow> [] | Some b \<Rightarrow> b)\<rparr>"
  shows "destFs (writeRawIfMissing s lib p path st) (mdDestPathOf lib (destPath p))
             = Some \<lparr>nIsDir = False, nModTime = now s,
                      nContent = (case srcReadFile s path of None \<Rightarrow> [] | Some b \<Rightarrow> b)\<rparr>"
  using assms
  by (auto simp: writeRawIfMissing_def Let_def WriteFile_def MkdirAll_keeps logMsg_def
      split: option.splits)

lemma finish_keeps:
  assumes f: "finish s lib fl d idx path version p cachedHash bodyHash info useCache c st = Inr (ex, st')"
    and m: "destFs st (mdDestPathOf lib (destPath p))
             = Some \<lparr>nIsDir = False, nModTime = now s,
                      nContent = (case srcReadFile s path of None \<Rightarrow> [] | Some b \<Rightarrow> b)\<rparr>"
  shows "destFs st' (mdDestPathOf lib (destPath p))
             = Some \<lparr>nIsDir = False, nModTime = now s,
                      nContent = (case srcReadFile s path of None \<Rightarrow> [] | Some b \<Rightarrow> b)\<rparr>"
proof -
  from f obtain wr st2 st3 info' where
    enq: "enqueueRender wr idx (renderContextOf s lib p version c)
       (writeRawIfMissing s lib p path (socialCard s lib fl p path cachedHash c st)) = Inr st2"
    and pub: "publish c st2 = Inr st3"
    and fin: "(d \<and> ex = ExitCancelled \<and> st' = st3) \<or>
     (\<not> d \<and> ex = ExitDone \<and>
        (\<exists>st4. stage s lib p version bodyHash info' useCache c st3 = Inr st4 \<and>
           st' = st4\<lparr>postsProcessed := postsProcessed st4 + 1,
                          processedCount := processedCount st4 + 1\<rparr>))"
    by (rule finish_cases)
  have "destFs st3 = destFs (writeRawIfMissing s lib p path (socialCard s lib fl p path cachedHash c st))"
    using enqueueRender_frame(8) [OF enq] publish_frame(7) [OF pub] by simp
  moreover have "destFs st' = destFs st3" using fin stage_frame(7) by auto
  ultimately show ?thesis
    using writeRawIfMissing_keeps [OF socialCard_keeps [OF m]] by simp
qed

subsection \<open>The IDs handed out by the counter\<close>

lemma assigned_steps [simp]:
  "assigned (logMsg lv msg p st) = assigned st"
  "assigned (MkdirAll s msg d st) = assigned st"
  "assigned (WriteFile s msg p data st) = assigned st"
  "assigned (writeRawOnMiss s lib pp src st) = assigned st"
  "assigned (writeRawIfMissing s lib pp path st) = assigned st"
  "assigned (socialCard s lib fl pp path ch c st) = assigned st"
  by (simp_all add: logMsg_def MkdirAll_def WriteFile_def writeRawOnMiss_def
      writeRawIfMissing_def socialCard_def Let_def split: option.splits)

lemma assigned_resolveContent:
  assumes "resolveContent s lib p path version source loaded st = r"
    and "r = Inl st' \<or> r = Inr (st', c)"
  shows "assigned st' = assigned st"
  using assms
  by (auto simp: resolveContent_def missContent_def Let_def split: option.splits prod.splits)

lemma assigned_enqueueRender:
  "enqueueRender wr idx rc st = Inr st' \<Longrightarrow> assigned st' = assigned st"
  by (auto simp: enqueueRender_def split: if_splits)

lemma assigned_stage:
  "stage s lib p version bodyHash info useCache c st = Inr st' \<Longrightarrow> assigned st' = assigned st"
  by (auto simp: stage_def Let_def split: if_splits option.splits)

lemma assigned_publish:
  "publish c st = Inr st' \<Longrightarrow> assigned st' = assigned st @ [sint (indexedPostIdx st + 1)]"
  by (auto simp: publish_def Let_def split: if_splits)

lemma assigned_finish:
  assumes "finish s lib fl d idx path version p cachedHash bodyHash info useCache c st = Inr (ex, st')"
  shows "assigned st' = assigned st @ [sint (indexedPostIdx st + 1)]"
proof -
  from assms obtain wr st2 st3 info' where
    enq: "enqueueRender wr idx (renderContextOf s lib p version c)
       (writeRawIfMissing s lib p path (socialCard s lib fl p path cachedHash c st)) = Inr st2"
    and pub: "publish c st2 = Inr st3"
    and fin: "(d \<and> ex = ExitCancelled \<and> st' = st3) \<or>
     (\<not> d \<and> ex = ExitDone \<and>
        (\<exists>st4. stage s lib p version bodyHash info' useCache c st3 = Inr st4 \<and>
           st' = st4\<lparr>postsProcessed := postsProcessed st4 + 1,
                          processedCount := processedCount st4 + 1\<rparr>))"
    by (rule finish_cases)
  have a: "assigned st2 = assigned st" "indexedPostIdx st2 = indexedPostIdx st"
    using assigned_enqueueRender [OF enq] enqueueRender_frame(6) [OF enq] by simp_all
  have b: "assigned st' = assigned st3" using fin assigned_stage by auto
  show ?thesis using assigned_publish [OF pub] a b by simp
qed

lemma assigned_worker:
  assumes "worker s lib fl d st (idx, path, version) = Inr (ex, st')"
  shows "assigned st' = assigned st @
           (if reachedPublish ex then [sint (indexedPostIdx st + 1)] else [])"
  using assms
proof (cases rule: worker_cases)
  case (oversize i)
  then show ?thesis by simp
next
  case (renderError cm info source bodyHash useCache0)
  then show ?thesis using assigned_resolveContent [OF renderError(2)] by simp
next
  case (draft cm info source bodyHash useCache0 c)
  then show ?thesis using assigned_resolveContent [OF draft(2)] by simp
next
  case (finished cm info source bodyHash useCache0 c st1)
  have "assigned st1 = assigned st" "indexedPostIdx st1 = indexedPostIdx st"
    using assigned_resolveContent [OF finished(2)] resolveContent_frame(6) [OF finished(2)]
    by simp_all
  then show ?thesis using assigned_finish [OF finished(4)] finish_counter(1) [OF finished(4)]
    by simp
qed

lemma assigned_runTasks:
  assumes "runTasks s lib fl ctx st ts = Inr (exs, st')"
    and "sint (indexedPostIdx st) = int k - 1"
    and "k \<le> length (indexedPosts st)"
    and "\<forall>j<k. ID (Record (indexedPosts st ! j)) = int j"
  shows "assigned st' = assigned st @ map int [k ..< k + length (filter reachedPublish exs)]"
  using assms
proof (induction ts arbitrary: st k exs)
  case Nil
  then show ?case by simp
next
  case (Cons t ts)
  show ?case
  proof (cases "ctx (2 * fst t)")
    case True
    with Cons.prems show ?thesis by simp
  next
    case False
    obtain idx path version where t: "t = (idx, path, version)" by (cases t) auto
    from Cons.prems(1) False obtain ex st1 exs1 where
      w: "worker s lib fl (ctx (2 * fst t + 1)) st t = Inr (ex, st1)"
      and r: "runTasks s lib fl ctx st1 ts = Inr (exs1, st')"
      and e: "exs = ex # exs1"
      by (auto split: sum.splits prod.splits)
    let ?k1 = "k + (if reachedPublish ex then 1 else 0)"
    have d: "sint (indexedPostIdx st1) = int ?k1 - 1 \<and> ?k1 \<le> length (indexedPosts st1)
       \<and> (\<forall>j < ?k1. ID (Record (indexedPosts st1 ! j)) = int j)"
      using worker_dense [OF w [unfolded t] Cons.prems(2,3,4)] .
    have a1: "assigned st1 = assigned st @ (if reachedPublish ex then [int k] else [])"
    proof (cases "reachedPublish ex")
      case True
      have "indexedPostIdx st1 = indexedPostIdx st + 1"
        using worker_counter [OF w [unfolded t]] True by simp
      then have "sint (indexedPostIdx st + 1) = int k" using d True by simp
      then show ?thesis using assigned_worker [OF w [unfolded t]] True by simp
    next
      case False
      then show ?thesis using assigned_worker [OF w [unfolded t]] by simp
    qed
    have ih: "assigned st' = assigned st1 @
                map int [?k1 ..< ?k1 + length (filter reachedPublish exs1)]"
      using Cons.IH [OF r] d by blast
    show ?thesis
    proof (cases "reachedPublish ex")
      case True
      then show ?thesis using ih a1 e by (simp add: upt_conv_Cons del: upt_Suc)
    next
      case False
      then show ?thesis using ih a1 e by simp
    qed
  qed
qed

lemma assigned_start:
  "assigned (warmup s (sweep s lib fs (initState s n lg))) = []"
proof -
  have f: "assigned (foldl (sweepStep c ex) st ids) = assigned st" for c ex st ids
  proof (induction ids arbitrary: st)
    case Nil
    then show ?case by simp
  next
    case (Cons pid ids)
    have "assigned (sweepStep c ex st pid) = assigned st"
      by (simp add: sweepStep_def split: result.splits option.splits)
    then show ?case using Cons.IH [of "sweepStep c ex st pid"] by simp
  qed
  show ?thesis
    by (simp add: warmup_def sweep_def f initState_def split: option.splits)
qed

lemma assigned_commit: "assigned (commit s st) = assigned st"
  by (simp add: commit_def Let_def split: option.splits)

lemma assigned_finish_panic:
  assumes "finish s lib fl d idx path version p cachedHash bodyHash info useCache c st = Inl (e, stp)"
  shows "assigned stp = assigned st \<or> assigned stp = assigned st @ [sint (indexedPostIdx st + 1)]"
  using assms unfolding finish_def Let_def
  by (auto simp: enqueueRender_def publish_def stage_def Let_def
      split: option.splits sum.splits if_splits)

lemma assigned_worker_panic:
  assumes "worker s lib fl d st (idx, path, version) = Inl (e, stp)"
  shows "assigned stp = assigned st \<or> assigned stp = assigned st @ [sint (indexedPostIdx st + 1)]"
proof -
  from assms obtain cm info source bodyHash useCache0 c st1 where
    rc: "resolveContent s lib (derivePaths s lib path version) path version source
         (loadCached s (cacheCalls st) cm useCache0) st = Inr (st1, c)"
    and f: "finish s lib fl d idx path version (derivePaths s lib path version)
         (cachedHashOf s (cacheCalls st) (relPath (derivePaths s lib path version)) cm useCache0)
         bodyHash info (loadCached s (cacheCalls st) cm useCache0 \<noteq> None) c st1
           = Inl (e, stp)"
    unfolding worker_def Let_def
    by (auto split: probe.splits sum.splits if_splits prod.splits)
  have "assigned st1 = assigned st" "indexedPostIdx st1 = indexedPostIdx st"
    using assigned_resolveContent [OF rc] resolveContent_frame(6) [OF rc] by simp_all
  then show ?thesis using assigned_finish_panic [OF f] by simp
qed

lemma assigned_runTasks_panic:
  assumes "runTasks s lib fl ctx st ts = Inl (e, stp)"
    and "sint (indexedPostIdx st) = int k - 1"
    and "k + length ts \<le> length (indexedPosts st)"
    and "length (indexedPosts st) \<le> 2147483648"
    and "\<forall>j<k. ID (Record (indexedPosts st ! j)) = int j"
  shows "\<exists>m. assigned stp = assigned st @ map int [k ..< k + m]"
  using assms
proof (induction ts arbitrary: st k)
  case Nil
  then show ?case by simp
next
  case (Cons t ts)
  obtain idx path version where t: "t = (idx, path, version)" by (cases t) auto
  have nc: "\<not> ctx (2 * fst t)" using Cons.prems(1) by (auto split: if_splits)
  have "sint (indexedPostIdx st) < 2147483647" using Cons.prems(2,3,4) by simp
  then have s1: "sint (indexedPostIdx st + 1) = int k" using sint_succ32 Cons.prems(2) by simp
  show ?case
  proof (cases "worker s lib fl (ctx (2 * fst t + 1)) st t")
    case (Inl a)
    then have w: "worker s lib fl (ctx (2 * fst t + 1)) st (idx, path, version) = Inl (e, stp)"
      using Cons.prems(1) nc t by simp
    from assigned_worker_panic [OF w] s1
    have "assigned stp = assigned st @ map int [k ..< k + 0]
        \<or> assigned stp = assigned st @ map int [k ..< k + 1]"
      by simp
    then show ?thesis by blast
  next
    case (Inr b)
    obtain ex st1 where b: "b = (ex, st1)" by (cases b) auto
    have w: "worker s lib fl (ctx (2 * fst t + 1)) st (idx, path, version) = Inr (ex, st1)"
      using Inr b t by simp
    have r: "runTasks s lib fl ctx st1 ts = Inl (e, stp)"
      using Cons.prems(1) nc Inr b by (auto split: sum.splits prod.splits)
    let ?k1 = "k + (if reachedPublish ex then 1 else 0)"
    have kl: "k \<le> length (indexedPosts st)" using Cons.prems(3) by simp
    have d: "sint (indexedPostIdx st1) = int ?k1 - 1 \<and> ?k1 \<le> length (indexedPosts st1)
       \<and> (\<forall>j < ?k1. ID (Record (indexedPosts st1 ! j)) = int j)"
      using worker_dense [OF w Cons.prems(2) kl Cons.prems(5)] .
    have l: "length (indexedPosts st1) = length (indexedPosts st)"
      using worker_lengths(1) [OF w] .
    have a1: "assigned st1 = assigned st @ (if reachedPublish ex then [int k] else [])"
      using assigned_worker [OF w] s1 by simp
    have "\<exists>m. assigned stp = assigned st1 @ map int [?k1 ..< ?k1 + m]"
    proof (rule Cons.IH [OF r])
      show "sint (indexedPostIdx st1) = int ?k1 - 1" using d by blast
      show "?k1 + length ts \<le> length (indexedPosts st1)" using l Cons.prems(3) by simp
      show "length (indexedPosts st1) \<le> 2147483648" using l Cons.prems(4) by simp
      show "\<forall>j < ?k1. ID (Record (indexedPosts st1 ! j)) = int j" using d by blast
    qed
    then obtain m where ih: "assigned stp = assigned st1 @ map int [?k1 ..< ?k1 + m]" by blast
    show ?thesis
    proof (cases "reachedPublish ex")
      case True
      then have "assigned stp = assigned st @ map int [k ..< k + (m + 1)]"
        using ih a1 by (simp add: upt_conv_Cons del: upt_Suc)
      then show ?thesis by blast
    next
      case False
      then have "assigned stp = assigned st @ map int [k ..< k + m]" using ih a1 by simp
      then show ?thesis by blast
    qed
  qed
qed

subsection \<open>The log is written and never read\<close>

lemma sameButLogs_obtain:
  assumes "sameButLogs a b"
  obtains l where "a = b\<lparr>logs := l\<rparr>"
proof -
  have "a = (a\<lparr>logs := []\<rparr>)\<lparr>logs := logs a\<rparr>" by simp
  also have "\<dots> = (b\<lparr>logs := []\<rparr>)\<lparr>logs := logs a\<rparr>"
    using assms by (simp only: sameButLogs_def)
  also have "\<dots> = b\<lparr>logs := logs a\<rparr>" by simp
  finally show ?thesis using that by blast
qed

lemma sameButLogs_upd [simp]: "sameButLogs (b\<lparr>logs := l\<rparr>) b" "sameButLogs b (b\<lparr>logs := l\<rparr>)"
  by (simp_all add: sameButLogs_def)

lemma sameButLogs_upd2 [simp]: "sameButLogs (b\<lparr>logs := l\<rparr>) (b\<lparr>logs := l'\<rparr>)"
  by (simp add: sameButLogs_def)

lemma logMsg_sbl: "sameButLogs a b \<Longrightarrow> sameButLogs (logMsg lv msg p a) (logMsg lv msg p b)"
  by (erule sameButLogs_obtain) (simp add: logMsg_def sameButLogs_def)

lemma MkdirAll_sbl: "sameButLogs a b \<Longrightarrow> sameButLogs (MkdirAll s msg d a) (MkdirAll s msg d b)"
  by (erule sameButLogs_obtain)
    (simp add: MkdirAll_def logMsg_def sameButLogs_def split: option.splits)

lemma WriteFile_sbl: "sameButLogs a b \<Longrightarrow> sameButLogs (WriteFile s msg p data a) (WriteFile s msg p data b)"
  by (erule sameButLogs_obtain) (simp add: WriteFile_def logMsg_def sameButLogs_def)

lemma writeRawOnMiss_sbl:
  "sameButLogs a b \<Longrightarrow> sameButLogs (writeRawOnMiss s lib p src a) (writeRawOnMiss s lib p src b)"
  by (simp add: writeRawOnMiss_def Let_def WriteFile_sbl MkdirAll_sbl)

lemma writeRawIfMissing_sbl:
  "sameButLogs a b \<Longrightarrow> sameButLogs (writeRawIfMissing s lib p path a) (writeRawIfMissing s lib p path b)"
  by (simp add: writeRawIfMissing_def Let_def WriteFile_sbl MkdirAll_sbl logMsg_sbl
      split: option.splits)

lemma socialCard_sbl:
  assumes "sameButLogs a b"
  shows "sameButLogs (socialCard s lib fl p path ch c a) (socialCard s lib fl p path ch c b)"
proof -
  let ?d = "Dir lib (cardDestPathOf s lib p)"
  have "sameButLogs (MkdirAll s ''Failed to create social card directory'' ?d a)
          (MkdirAll s ''Failed to create social card directory'' ?d b)"
    using assms by (rule MkdirAll_sbl)
  then obtain l where
    m: "MkdirAll s ''Failed to create social card directory'' ?d a
          = (MkdirAll s ''Failed to create social card directory'' ?d b)\<lparr>logs := l\<rparr>"
    by (rule sameButLogs_obtain)
  show ?thesis
    unfolding socialCard_def Let_def m
    by (simp add: cardExistsIn_def logMsg_def sameButLogs_def split: option.splits)
qed

lemma resolveContent_sbl:
  assumes "sameButLogs a b"
  shows "rel_sum sameButLogs (\<lambda>(a', c) (b', c'). c = c' \<and> sameButLogs a' b')
           (resolveContent s lib p path version source loaded a)
           (resolveContent s lib p path version source loaded b)"
proof (cases loaded)
  case (Some t)
  from assms obtain l where a: "a = b\<lparr>logs := l\<rparr>" by (rule sameButLogs_obtain)
  show ?thesis
    unfolding a using Some
    by (simp add: resolveContent_def hitContent_def sameButLogs_def split: prod.splits)
next
  case None
  from assms obtain l where a: "a = b\<lparr>logs := l\<rparr>" by (rule sameButLogs_obtain)
  have "sameButLogs (a\<lparr>cacheMisses := cacheMisses a + 1\<rparr>) (b\<lparr>cacheMisses := cacheMisses b + 1\<rparr>)"
    by (simp add: a sameButLogs_def)
  then have w: "sameButLogs (writeRawOnMiss s lib p source (a\<lparr>cacheMisses := cacheMisses a + 1\<rparr>))
          (writeRawOnMiss s lib p source (b\<lparr>cacheMisses := cacheMisses b + 1\<rparr>))"
    by (rule writeRawOnMiss_sbl)
  show ?thesis
    using None w logMsg_sbl [OF w]
    by (simp add: resolveContent_def missContent_def Let_def split: option.splits)
qed

lemma sameOutcome_Inl [simp]:
  "sameOutcome (Inl (e, a)) (Inl (e', b)) \<longleftrightarrow> e = e' \<and> sameButLogs a b"
  by (simp add: sameOutcome_def)

lemma sameOutcome_Inr [simp]:
  "sameOutcome (Inr (x, a)) (Inr (x', b)) \<longleftrightarrow> x = x' \<and> sameButLogs a b"
  by (simp add: sameOutcome_def)

lemma sameOutcome_cases:
  assumes "sameOutcome r r'"
  obtains (panic) e a b where "r = Inl (e, a)" "r' = Inl (e, b)" "sameButLogs a b"
  | (ok) x a b where "r = Inr (x, a)" "r' = Inr (x, b)" "sameButLogs a b"
  using assms unfolding sameOutcome_def by (auto elim!: rel_sum.cases)

lemma resolveContent_sbl_cases:
  assumes "sameButLogs a b"
  obtains (err) a1 b1 where
      "resolveContent s lib p path version source loaded a = Inl a1"
      "resolveContent s lib p path version source loaded b = Inl b1"
      "sameButLogs a1 b1"
  | (ok) a1 b1 c where
      "resolveContent s lib p path version source loaded a = Inr (a1, c)"
      "resolveContent s lib p path version source loaded b = Inr (b1, c)"
      "sameButLogs a1 b1"
  using resolveContent_sbl [OF assms, of s lib p path version source loaded]
  by (auto elim!: rel_sum.cases)

lemma enqueueRender_sbl:
  assumes "sameButLogs a b"
  shows "sameOutcome (map_sum id (Pair ()) (enqueueRender wr idx rc a))
           (map_sum id (Pair ()) (enqueueRender wr idx rc b))"
proof -
  from assms obtain l where a: "a = b\<lparr>logs := l\<rparr>" by (rule sameButLogs_obtain)
  show ?thesis unfolding a by (simp add: enqueueRender_def sameButLogs_def)
qed

lemma publish_sbl:
  assumes "sameButLogs a b"
  shows "sameOutcome (map_sum id (Pair ()) (publish c a)) (map_sum id (Pair ()) (publish c b))"
proof -
  from assms obtain l where a: "a = b\<lparr>logs := l\<rparr>" by (rule sameButLogs_obtain)
  show ?thesis unfolding a by (simp add: publish_def sameButLogs_def Let_def)
qed

lemma stage_sbl:
  assumes "sameButLogs a b"
  shows "sameOutcome (map_sum id (Pair ()) (stage s lib p version bodyHash info useCache c a))
           (map_sum id (Pair ()) (stage s lib p version bodyHash info useCache c b))"
proof -
  from assms obtain l where a: "a = b\<lparr>logs := l\<rparr>" by (rule sameButLogs_obtain)
  show ?thesis
    unfolding a
    by (simp add: stage_def logMsg_def sameButLogs_def Let_def split: option.splits)
qed

lemma step_sbl_cases:
  assumes "sameOutcome (map_sum id (Pair ()) r) (map_sum id (Pair ()) r')"
  obtains (panic) e a b where "r = Inl (e, a)" "r' = Inl (e, b)" "sameButLogs a b"
  | (ok) a b where "r = Inr a" "r' = Inr b" "sameButLogs a b"
  using assms by (cases r; cases r') (auto simp: sameOutcome_def)

lemma finish_sbl:
  assumes "sameButLogs a b"
  shows "sameOutcome
           (finish s lib fl d idx path version p cachedHash bodyHash info useCache c a)
           (finish s lib fl d idx path version p cachedHash bodyHash info useCache c b)"
proof -
  let ?info = "if outputMissing fl \<or> useCache then info
               else (case info of None \<Rightarrow> srcStat s path | Some i \<Rightarrow> Some i)"
  let ?a1 = "socialCard s lib fl p path cachedHash c a"
  let ?b1 = "socialCard s lib fl p path cachedHash c b"
  have 1: "sameButLogs ?a1 ?b1" using assms by (rule socialCard_sbl)
  have 2: "sameButLogs (writeRawIfMissing s lib p path ?a1) (writeRawIfMissing s lib p path ?b1)"
    using 1 by (rule writeRawIfMissing_sbl)
  show ?thesis
  proof (cases "willRender fl useCache (osStat s (destPath p)) ?info")
    case None
    then show ?thesis using 1 by (simp add: finish_def Let_def)
  next
    case (Some wr)
    have "sameOutcome
            (map_sum id (Pair ()) (enqueueRender wr idx (renderContextOf s lib p version c)
               (writeRawIfMissing s lib p path ?a1)))
            (map_sum id (Pair ()) (enqueueRender wr idx (renderContextOf s lib p version c)
               (writeRawIfMissing s lib p path ?b1)))"
      using 2 by (rule enqueueRender_sbl)
    then show ?thesis
    proof (cases rule: step_sbl_cases)
      case (panic e a2 b2)
      then show ?thesis using Some by (simp add: finish_def Let_def)
    next
      case enq: (ok a2 b2)
      have "sameOutcome (map_sum id (Pair ()) (publish c a2)) (map_sum id (Pair ()) (publish c b2))"
        using enq(3) by (rule publish_sbl)
      then show ?thesis
      proof (cases rule: step_sbl_cases)
        case (panic e a3 b3)
        then show ?thesis using Some enq by (simp add: finish_def Let_def)
      next
        case pub: (ok a3 b3)
        show ?thesis
        proof (cases d)
          case True
          then show ?thesis using Some enq pub by (simp add: finish_def Let_def)
        next
          case False
          have "sameOutcome
                  (map_sum id (Pair ()) (stage s lib p version bodyHash ?info useCache c a3))
                  (map_sum id (Pair ()) (stage s lib p version bodyHash ?info useCache c b3))"
            using pub(3) by (rule stage_sbl)
          then show ?thesis
          proof (cases rule: step_sbl_cases)
            case (panic e a4 b4)
            then show ?thesis using Some enq pub False by (simp add: finish_def Let_def)
          next
            case stg: (ok a4 b4)
            from stg(3) obtain l where a4: "a4 = b4\<lparr>logs := l\<rparr>" by (rule sameButLogs_obtain)
            have "sameButLogs (a4\<lparr>postsProcessed := postsProcessed a4 + 1,
                                  processedCount := processedCount a4 + 1\<rparr>)
                    (b4\<lparr>postsProcessed := postsProcessed b4 + 1,
                         processedCount := processedCount b4 + 1\<rparr>)"
              by (simp add: a4 sameButLogs_def)
            then show ?thesis using Some enq pub False stg by (simp add: finish_def Let_def)
          qed
        qed
      qed
    qed
  qed
qed

lemma worker_sbl:
  assumes "sameButLogs a b"
  shows "sameOutcome (worker s lib fl d a t) (worker s lib fl d b t)"
proof -
  obtain idx path version where t: "t = (idx, path, version)" by (cases t) auto
  from assms obtain l where a: "a = b\<lparr>logs := l\<rparr>" by (rule sameButLogs_obtain)
  have cc: "cacheCalls a = cacheCalls b" by (simp add: a)
  let ?p = "derivePaths s lib path version"
  show ?thesis
  proof (cases "cacheProbe s lib fl (cacheCalls b) path (relPath ?p)")
    case (Oversize i)
    then show ?thesis
      using logMsg_sbl [OF assms] by (simp add: worker_def t cc Let_def)
  next
    case (Probed cm info source bodyHash useCache0)
    from assms show ?thesis
    proof (cases rule: resolveContent_sbl_cases
        [where s = s and lib = lib and p = ?p and path = path and version = version
           and source = source and loaded = "loadCached s (cacheCalls b) cm useCache0"])
      case (err a1 b1)
      then show ?thesis using Probed by (simp add: worker_def t cc Let_def)
    next
      case (ok a1 b1 c)
      then show ?thesis
        using Probed finish_sbl [OF ok(3)] by (simp add: worker_def t cc Let_def)
    qed
  qed
qed

lemma runTasks_sbl:
  assumes "sameButLogs a b"
  shows "sameOutcome (runTasks s lib fl ctx a ts) (runTasks s lib fl ctx b ts)"
  using assms
proof (induction ts arbitrary: a b)
  case Nil
  then show ?case by simp
next
  case (Cons t ts)
  show ?case
  proof (cases "ctx (2 * fst t)")
    case True
    then show ?thesis using Cons.prems by simp
  next
    case False
    have "sameOutcome (worker s lib fl (ctx (2 * fst t + 1)) a t)
            (worker s lib fl (ctx (2 * fst t + 1)) b t)"
      using Cons.prems by (rule worker_sbl)
    then show ?thesis
    proof (cases rule: sameOutcome_cases)
      case (panic e a1 b1)
      then show ?thesis using False by simp
    next
      case w: (ok ex a1 b1)
      have "sameOutcome (runTasks s lib fl ctx a1 ts) (runTasks s lib fl ctx b1 ts)"
        using w(3) by (rule Cons.IH)
      then show ?thesis
      proof (cases rule: sameOutcome_cases)
        case (panic e a2 b2)
        then show ?thesis using False w by simp
      next
        case (ok exs a2 b2)
        then show ?thesis using False w by simp
      qed
    qed
  qed
qed

lemma sameButLogs_fields:
  assumes "sameButLogs a b"
  shows "allMetadataMap a = allMetadataMap b"
    and "assigned a = assigned b"
    and "indexedPosts a = indexedPosts b"
    and "renderQueue a = renderQueue b"
proof -
  from assms obtain l where a: "a = b\<lparr>logs := l\<rparr>" by (rule sameButLogs_obtain)
  show "allMetadataMap a = allMetadataMap b" "assigned a = assigned b"
    "indexedPosts a = indexedPosts b" "renderQueue a = renderQueue b"
    by (simp_all add: a)
qed

subsection \<open>A post that passes the gates is published\<close>

lemma finish_publishes:
  assumes "idx < length (renderQueue st)"
    and "0 \<le> sint (indexedPostIdx st + 1)"
    and "sint (indexedPostIdx st + 1) < int (length (indexedPosts st))"
  shows "\<exists>ex st'.
           finish s lib fl d idx path version p cachedHash bodyHash (Some i) useCache c st
             = Inr (ex, st')
         \<and> reachedPublish ex
         \<and> map_of (allMetadataMap st') (Link (post c)) = Some (post c)
         \<and> assigned st' = assigned st @ [sint (indexedPostIdx st + 1)]
         \<and> indexedPosts st' = (indexedPosts st)[nat (sint (indexedPostIdx st + 1)) :=
               \<lparr>Record = (searchRecord c)\<lparr>ID := sint (indexedPostIdx st + 1)\<rparr>,
                WordFreqs = wordFreqs c, DocLen = docLen c\<rparr>]
         \<and> renderQueue st' =
               (if willRender fl useCache (osStat s (destPath p)) (Some i) = Some True
                then (renderQueue st)[idx := renderContextOf s lib p version c]
                else renderQueue st)"
proof -
  let ?w = "writeRawIfMissing s lib p path (socialCard s lib fl p path cachedHash c st)"
  obtain wr where wr: "willRender fl useCache (osStat s (destPath p)) (Some i) = Some wr"
    by (cases "willRender fl useCache (osStat s (destPath p)) (Some i)")
       (auto simp: willRender_def split: if_splits stat_result.splits)
  have "\<exists>st2. enqueueRender wr idx (renderContextOf s lib p version c) ?w = Inr st2"
    using assms(1) by (simp add: enqueueRender_def)
  then obtain st2 where
    enq: "enqueueRender wr idx (renderContextOf s lib p version c) ?w = Inr st2"
    by blast
  have f2: "indexedPostIdx st2 = indexedPostIdx st" "indexedPosts st2 = indexedPosts st"
    "assigned st2 = assigned st"
    using enqueueRender_frame(5,6) [OF enq] assigned_enqueueRender [OF enq] by simp_all
  have q2: "renderQueue st2 = (if wr then (renderQueue st)[idx := renderContextOf s lib p version c]
                               else renderQueue st)"
    using enq by (auto simp: enqueueRender_def split: if_splits)
  let ?sid = "sint (indexedPostIdx st + 1)"
  let ?st3 = "st2\<lparr>allMetadataMap := AList.update (Link (post c)) (post c) (allMetadataMap st2),
                   indexedPostIdx := indexedPostIdx st + 1, assigned := assigned st @ [?sid],
                   indexedPosts := (indexedPosts st)[nat ?sid :=
                      \<lparr>Record = (searchRecord c)\<lparr>ID := ?sid\<rparr>, WordFreqs = wordFreqs c,
                       DocLen = docLen c\<rparr>]\<rparr>"
  have pub: "publish c st2 = Inr ?st3"
    using assms(2,3) f2 by (simp add: publish_def Let_def)
  have m3: "map_of (allMetadataMap ?st3) (Link (post c)) = Some (post c)"
    by (simp add: update_conv')
  have ii: "(if outputMissing fl \<or> useCache then Some i
             else (case Some i of None \<Rightarrow> srcStat s path | Some i \<Rightarrow> Some i)) = Some i"
    by simp
  show ?thesis
  proof (cases d)
    case True
    have "finish s lib fl d idx path version p cachedHash bodyHash (Some i) useCache c st
            = Inr (ExitCancelled, ?st3)"
      using wr enq pub True unfolding finish_def ii by (simp add: Let_def)
    then show ?thesis using m3 q2 wr by simp
  next
    case False
    obtain st4 where stg: "stage s lib p version bodyHash (Some i) useCache c ?st3 = Inr st4"
      by (cases "stage s lib p version bodyHash (Some i) useCache c ?st3")
         (auto simp: stage_def Let_def split: option.splits if_splits)
    have f4: "allMetadataMap st4 = allMetadataMap ?st3" "indexedPosts st4 = indexedPosts ?st3"
      "assigned st4 = assigned ?st3" "renderQueue st4 = renderQueue ?st3"
      using stage_frame(1,2,4) [OF stg] assigned_stage [OF stg] by simp_all
    have "finish s lib fl d idx path version p cachedHash bodyHash (Some i) useCache c st
            = Inr (ExitDone, st4\<lparr>postsProcessed := postsProcessed st4 + 1,
                                   processedCount := processedCount st4 + 1\<rparr>)"
      using wr enq pub False stg unfolding finish_def ii by (simp add: Let_def)
    then show ?thesis using m3 f4 q2 wr by simp
  qed
qed

lemma worker_publishes:
  assumes i: "srcStat s path = Some i"
    and r: "resolved s lib fl st path version = Some c"
    and nd: "\<not> (Draft (post c) \<and> \<not> IncludeDrafts (cfg s))"
    and q: "idx < length (renderQueue st)"
    and lo: "0 \<le> sint (indexedPostIdx st + 1)"
    and hi: "sint (indexedPostIdx st + 1) < int (length (indexedPosts st))"
  shows "\<exists>ex st'.
           worker s lib fl d st (idx, path, version) = Inr (ex, st')
         \<and> reachedPublish ex
         \<and> map_of (allMetadataMap st') (Link (post c)) = Some (post c)
         \<and> assigned st' = assigned st @ [sint (indexedPostIdx st + 1)]
         \<and> indexedPosts st' = (indexedPosts st)[nat (sint (indexedPostIdx st + 1)) :=
               \<lparr>Record = (searchRecord c)\<lparr>ID := sint (indexedPostIdx st + 1)\<rparr>,
                WordFreqs = wordFreqs c, DocLen = docLen c\<rparr>]
         \<and> renderQueue st' =
               (if willRender fl (isHit s lib fl st path version)
                     (osStat s (destPath (derivePaths s lib path version))) (Some i) = Some True
                then (renderQueue st)[idx := renderContextOf s lib
                        (derivePaths s lib path version) version c]
                else renderQueue st)"
proof -
  let ?p = "derivePaths s lib path version"
  from r obtain cm info source bodyHash useCache0 st1 where
    pr: "cacheProbe s lib fl (cacheCalls st) path (relPath ?p)
           = Probed cm info source bodyHash useCache0"
    and rc: "resolveContent s lib ?p path version source
               (loadCached s (cacheCalls st) cm useCache0) st = Inr (st1, c)"
    unfolding resolved_def Let_def
    by (auto split: probe.splits sum.splits prod.splits)
  have info: "info = Some i" using cacheProbe_Probed(2) [OF pr] i by simp
  have f1: "renderQueue st1 = renderQueue st" "indexedPosts st1 = indexedPosts st"
    "indexedPostIdx st1 = indexedPostIdx st" "assigned st1 = assigned st"
    using resolveContent_frame(5,6,7) [OF rc] assigned_resolveContent [OF rc] by simp_all
  have w: "worker s lib fl d st (idx, path, version)
             = finish s lib fl d idx path version ?p
                 (cachedHashOf s (cacheCalls st) (relPath ?p) cm useCache0)
                 bodyHash (Some i) (loadCached s (cacheCalls st) cm useCache0 \<noteq> None) c st1"
    using pr rc nd info by (auto simp: worker_def Let_def)
  have hit: "isHit s lib fl st path version = (loadCached s (cacheCalls st) cm useCache0 \<noteq> None)"
    using pr by (simp add: isHit_def)
  have "idx < length (renderQueue st1)" "0 \<le> sint (indexedPostIdx st1 + 1)"
    "sint (indexedPostIdx st1 + 1) < int (length (indexedPosts st1))"
    using q lo hi f1 by simp_all
  from finish_publishes [OF this, of s lib fl d path version ?p
      "cachedHashOf s (cacheCalls st) (relPath ?p) cm useCache0" bodyHash i
      "loadCached s (cacheCalls st) cm useCache0 \<noteq> None" c]
  show ?thesis
    unfolding w hit f1 .
qed

subsection \<open>The run of many posts that all publish\<close>

lemma many_fields:
  "cfg (manyFilesService n) = demoCfg"
  "cache (manyFilesService n) = None"
  "srcStat (manyFilesService n) ''c/a.md'' = Some demoInfo"
  "srcReadFile (manyFilesService n) ''c/a.md'' = Some ''hello''"
  "osStat (manyFilesService n) p = StatOk freshInfo"
  "mdParse (manyFilesService n) p src = demoDoc src"
  "mdRender (manyFilesService n) src doc = Some src"
  "srcWalk (manyFilesService n) = replicate n (''c/a.md'', False)"
  "srcWalkOk (manyFilesService n)"
  by (simp_all add: manyFilesService_def freshService_def demoService_def)

lemma many_paths:
  "derivePaths (manyFilesService n) demoLib ''c/a.md'' []
     = \<lparr>relPath = ''a.md'', htmlRelPath = ''a.html'', cleanHtmlRelPath = ''a.html'',
        destPath = ''o/a.html''\<rparr>"
  by (simp add: derivePaths_def many_fields demoCfg_def demoLib_def demoJoin_def
      TrimPrefix_def Let_def)

lemma demo_flags:
  "\<not> shouldForce demoFlags" "\<not> forceSocialRebuild demoFlags" "\<not> outputMissing demoFlags"
  by (simp_all add: demoFlags_def)

lemma many_probe:
  "cacheProbe (manyFilesService n) demoLib demoFlags h ''c/a.md'' ''a.md''
     = Probed None (Some demoInfo) ''hello'' ''h:hello'' False"
  by (simp add: cacheProbe_def candidate_def many_fields firstInfo_def existsByMtime_def
      existsByBody_def demoInfo_def MaxFileSize_def demoLib_def demo_flags Let_def)

lemma many_resolve:
  "\<exists>c. resolveContent (manyFilesService n) demoLib p ''c/a.md'' [] ''hello'' None st
         = Inr (st\<lparr>cacheMisses := cacheMisses st + 1\<rparr>, c)
       \<and> \<not> Draft (post c)"
  by (simp add: resolveContent_def missContent_def writeRawOnMiss_def many_fields demoCfg_def
      parsedContent_def demoDoc_def demoLib_def Let_def)

lemma many_willRender:
  "willRender demoFlags False (osStat (manyFilesService n) d) (Some demoInfo) = Some False"
  "willRender demoFlags False (StatOk freshInfo) (Some demoInfo) = Some False"
  by (simp_all add: willRender_def demoFlags_def many_fields freshInfo_def demoInfo_def
      After_def seconds_def)

lemma many_worker:
  assumes "\<not> (0 \<le> sint (indexedPostIdx st + 1)
             \<and> sint (indexedPostIdx st + 1) < int (length (indexedPosts st)))"
  shows "\<exists>stp. worker (manyFilesService n) demoLib demoFlags False st (i, ''c/a.md'', [])
                 = Inl (IndexOutOfRange, stp)
             \<and> assigned stp = assigned st @ [sint (indexedPostIdx st + 1)]"
proof -
  obtain c where
    r: "resolveContent (manyFilesService n) demoLib
          \<lparr>relPath = ''a.md'', htmlRelPath = ''a.html'', cleanHtmlRelPath = ''a.html'',
             destPath = ''o/a.html''\<rparr> ''c/a.md'' [] ''hello'' None st
         = Inr (st\<lparr>cacheMisses := cacheMisses st + 1\<rparr>, c)"
    and nd: "\<not> Draft (post c)"
    using many_resolve by blast
  show ?thesis
    using assms nd
    by (auto simp add: worker_def many_paths many_probe loadCached_def r finish_def
        many_willRender demo_flags enqueueRender_def publish_def Let_def)
qed

lemma many_worker_ok:
  assumes "0 \<le> sint (indexedPostIdx st + 1)"
    and "sint (indexedPostIdx st + 1) < int (length (indexedPosts st))"
  shows "\<exists>st'. worker (manyFilesService n) demoLib demoFlags False st (i, ''c/a.md'', [])
           = Inr (ExitDone, st')"
proof -
  obtain c where
    r: "resolveContent (manyFilesService n) demoLib
          \<lparr>relPath = ''a.md'', htmlRelPath = ''a.html'', cleanHtmlRelPath = ''a.html'',
             destPath = ''o/a.html''\<rparr> ''c/a.md'' [] ''hello'' None st
         = Inr (st\<lparr>cacheMisses := cacheMisses st + 1\<rparr>, c)"
    and nd: "\<not> Draft (post c)"
    using many_resolve by blast
  show ?thesis
    using assms nd
    by (auto simp add: worker_def many_paths many_probe loadCached_def r finish_def
        many_willRender demo_flags enqueueRender_def publish_def stage_def many_fields Let_def)
qed

lemma neverDone_False: "\<not> neverDone t"
  by (simp add: neverDone_def)

lemma runTasks_step:
  assumes "\<not> ctx (2 * fst t)" and "ctx (2 * fst t + 1) = d"
  shows "runTasks s lib fl ctx st (t # ts)
           = (case worker s lib fl d st t of
                Inl e \<Rightarrow> Inl e
              | Inr (ex, st1) \<Rightarrow>
                  (case runTasks s lib fl ctx st1 ts of
                     Inl e \<Rightarrow> Inl e
                   | Inr (exs, st2) \<Rightarrow> Inr (ex # exs, st2)))"
  using assms by simp

lemma many_run_panics:
  assumes "sint (indexedPostIdx st) = 2147483647 - int m"
    and "m \<le> 2147483648"
    and "2147483648 \<le> length (indexedPosts st)"
    and "m < length ts"
    and "\<forall>t\<in>set ts. snd t = (''c/a.md'', [])"
  shows "\<exists>stp. runTasks (manyFilesService n) demoLib demoFlags neverDone st ts
                 = Inl (IndexOutOfRange, stp)
             \<and> length (assigned stp) = length (assigned st) + m + 1
             \<and> last (assigned stp) = - 2147483648"
  using assms
proof (induction m arbitrary: st ts)
  case 0
  then obtain i ts' where ts: "ts = (i, ''c/a.md'', []) # ts'"
    by (cases ts) (auto simp: prod_eq_iff)
  have s1: "sint (indexedPostIdx st + 1) = - 2147483648"
    using sint_succ32_max "0.prems"(1) by simp
  then obtain stp where
    w: "worker (manyFilesService n) demoLib demoFlags False st (i, ''c/a.md'', [])
          = Inl (IndexOutOfRange, stp)"
    and a: "assigned stp = assigned st @ [sint (indexedPostIdx st + 1)]"
    using many_worker [of st n i] by auto
  have "runTasks (manyFilesService n) demoLib demoFlags neverDone st ts
          = Inl (IndexOutOfRange, stp)"
    unfolding ts using w
    by (subst runTasks_step [where d = False]) (simp_all add: neverDone_False)
  then show ?case using a s1 by simp
next
  case (Suc m)
  then obtain i ts' where ts: "ts = (i, ''c/a.md'', []) # ts'"
    by (cases ts) (auto simp: prod_eq_iff)
  have lt: "sint (indexedPostIdx st) < 2147483647" using Suc.prems(1) by simp
  have s1: "sint (indexedPostIdx st + 1) = 2147483647 - int m"
    using sint_succ32 [OF lt] Suc.prems(1) by simp
  have "0 \<le> sint (indexedPostIdx st + 1)" using s1 Suc.prems(2) by simp
  moreover have "sint (indexedPostIdx st + 1) < int (length (indexedPosts st))"
    using s1 Suc.prems(3) by simp
  ultimately obtain st1 where
    w: "worker (manyFilesService n) demoLib demoFlags False st (i, ''c/a.md'', [])
          = Inr (ExitDone, st1)"
    using many_worker_ok by blast
  have c1: "indexedPostIdx st1 = indexedPostIdx st + 1"
    using worker_counter [OF w] by simp
  have l1: "length (indexedPosts st1) = length (indexedPosts st)"
    using worker_lengths(1) [OF w] .
  have a1: "length (assigned st1) = length (assigned st) + 1"
    using assigned_worker [OF w] by simp
  have "\<exists>stp. runTasks (manyFilesService n) demoLib demoFlags neverDone st1 ts'
                 = Inl (IndexOutOfRange, stp)
             \<and> length (assigned stp) = length (assigned st1) + m + 1
             \<and> last (assigned stp) = - 2147483648"
  proof (rule Suc.IH)
    show "sint (indexedPostIdx st1) = 2147483647 - int m" using c1 s1 by simp
    show "m \<le> 2147483648" using Suc.prems(2) by simp
    show "2147483648 \<le> length (indexedPosts st1)" using l1 Suc.prems(3) by simp
    show "m < length ts'" using Suc.prems(4) ts by simp
    show "\<forall>t\<in>set ts'. snd t = (''c/a.md'', [])" using Suc.prems(5) ts by simp
  qed
  then obtain stp where
    r: "runTasks (manyFilesService n) demoLib demoFlags neverDone st1 ts'
          = Inl (IndexOutOfRange, stp)"
    and la: "length (assigned stp) = length (assigned st1) + m + 1"
    and ls: "last (assigned stp) = - 2147483648"
    by blast
  have "runTasks (manyFilesService n) demoLib demoFlags neverDone st ts
          = Inl (IndexOutOfRange, stp)"
    unfolding ts using w r
    by (subst runTasks_step [where d = False]) (simp_all add: neverDone_False)
  then show ?case using la ls a1 by simp
qed

lemma many_walkStep:
  "foldl (walkStep demoLib) (fs, h, lg) (replicate n (''c/a.md'', False))
     = (fs @ replicate n (''c/a.md'', []), h, lg)"
proof (induction n arbitrary: fs)
  case 0
  then show ?case by simp
next
  case (Suc n)
  have "walkStep demoLib (fs, h, lg) (''c/a.md'', False) = (fs @ [(''c/a.md'', [])], h, lg)"
    by (simp add: HasSuffix_def demoLib_def)
  then show ?case using Suc.IH [of "fs @ [(''c/a.md'', [])]"] by (simp add: replicate_app_Cons_same)
qed

lemma many_walk:
  "walkContent (manyFilesService n) demoLib = (replicate n (''c/a.md'', []), False, [])"
  by (simp add: walkContent_def many_fields many_walkStep)

lemma many_start:
  "warmup (manyFilesService n) (sweep (manyFilesService n) demoLib fs st) = st"
  by (simp add: warmup_def sweep_def many_fields)

lemma many_run:
  assumes "2147483648 < n"
  shows "\<exists>stp. runTasks (manyFilesService n) demoLib demoFlags neverDone
                   (initState (manyFilesService n) n []) (tasksOf (replicate n (''c/a.md'', [])))
                 = Inl (IndexOutOfRange, stp)
             \<and> length (assigned stp) = 2147483649
             \<and> last (assigned stp) = - 2147483648"
proof -
  let ?st = "initState (manyFilesService n) n []"
  have "\<exists>stp. runTasks (manyFilesService n) demoLib demoFlags neverDone ?st
                   (tasksOf (replicate n (''c/a.md'', [])))
                 = Inl (IndexOutOfRange, stp)
             \<and> length (assigned stp) = length (assigned ?st) + 2147483648 + 1
             \<and> last (assigned stp) = - 2147483648"
  proof (rule many_run_panics [where m = 2147483648])
    show "sint (indexedPostIdx ?st) = 2147483647 - int 2147483648"
      by (simp add: initState_def)
    show "(2147483648::nat) \<le> 2147483648" by simp
    show "2147483648 \<le> length (indexedPosts ?st)"
      using assms by (simp add: initState_def)
    show "2147483648 < length (tasksOf (replicate n (''c/a.md'', [])))"
      using assms by (simp add: tasksOf_facts)
    show "\<forall>t\<in>set (tasksOf (replicate n (''c/a.md'', []))). snd t = (''c/a.md'', [])"
      by (auto simp: tasksOf_def in_set_zip)
  qed
  moreover have "assigned ?st = []" by (simp add: initState_def)
  ultimately show ?thesis by simp
qed

lemma many_process:
  assumes "2147483648 < n"
  shows "Process (manyFilesService n) demoLib demoFlags neverDone = Inl IndexOutOfRange"
proof -
  from many_run [OF assms] obtain stp where
    "runTasks (manyFilesService n) demoLib demoFlags neverDone
       (initState (manyFilesService n) n []) (tasksOf (replicate n (''c/a.md'', [])))
     = Inl (IndexOutOfRange, stp)"
    by blast
  then show ?thesis
    by (simp add: Process_def many_walk many_start)
qed

lemma many_atPanic:
  assumes "2147483648 < n"
  shows "\<exists>stp. atPanic (manyFilesService n) demoLib demoFlags neverDone = Some (IndexOutOfRange, stp)
             \<and> length (assigned stp) = 2147483649
             \<and> last (assigned stp) = - 2147483648"
proof -
  from many_run [OF assms] obtain stp where
    r: "runTasks (manyFilesService n) demoLib demoFlags neverDone
       (initState (manyFilesService n) n []) (tasksOf (replicate n (''c/a.md'', [])))
     = Inl (IndexOutOfRange, stp)"
    and a: "length (assigned stp) = 2147483649" "last (assigned stp) = - 2147483648"
    by blast
  have "atPanic (manyFilesService n) demoLib demoFlags neverDone = Some (IndexOutOfRange, stp)"
    using r by (simp add: atPanic_def many_walk many_start)
  then show ?thesis using a by blast
qed

subsection \<open>C1: the cache probe\<close>

text \<open>
  C1, as the code has it. For a post that passes the size gate, the cache probe (lines
  205 to 233) ends in a hit exactly when \<open>GetPostByPath\<close> returns a candidate without an
  error, the source's modification time in whole seconds is not greater than the cached
  \<open>ModTime\<close> (whenever the source can be stat'ed), the cached \<open>BodyHash\<close> is empty or
  equal to the freshly computed one, and the force flag is not set. So a source newer
  than the cached \<open>ModTime\<close> is a miss even when its body hash matches, a non-empty cached
  body hash that differs is a miss whatever the times are, and the force flag turns every
  hit into a miss.
\<close>

theorem C1_cache_probe:
  assumes "cacheProbe s lib fl h path rel = Probed cm info source bodyHash useCache"
  shows "useCache \<longleftrightarrow>
           (\<exists>m. candidate s h rel = Some m
              \<and> (\<forall>i. srcStat s path = Some i \<longrightarrow> Unix (fModTime i) \<le> ModTime m)
              \<and> (BodyHash m = [] \<or> BodyHash m = GetBodyHash lib source))
           \<and> \<not> shouldForce fl"
  using cacheProbe_Probed [OF assms]
  by (auto simp: existsByBody_def existsByMtime_def firstInfo_def split: option.splits)

theorem C1_cache_probe_witness:
  "cacheProbe (cachedService 100 ''hello'' False) demoLib demoFlags [] ''c/a.md'' ''a.md''
     = Probed (Some (demoMeta 100 ''hello'' False)) (Some demoInfo) ''hello'' ''h:hello'' True
 \<and> (\<exists>m. candidate (cachedService 100 ''hello'' False) [] ''a.md'' = Some m
        \<and> (\<forall>i. srcStat (cachedService 100 ''hello'' False) ''c/a.md'' = Some i
               \<longrightarrow> Unix (fModTime i) \<le> ModTime m)
        \<and> (BodyHash m = [] \<or> BodyHash m = GetBodyHash demoLib ''hello''))
 \<and> \<not> shouldForce demoFlags"
proof -
  have p: "cacheProbe (cachedService 100 ''hello'' False) demoLib demoFlags [] ''c/a.md'' ''a.md''
     = Probed (Some (demoMeta 100 ''hello'' False)) (Some demoInfo) ''hello'' ''h:hello'' True"
    by (simp add: cacheProbe_def candidate_def cachedService_def demoService_def memCache_def
        livePosts_def demoMeta_def demoInfo_def demoLib_def demoFlags_def Unix_def seconds_def
        firstInfo_def existsByMtime_def existsByBody_def MaxFileSize_def Let_def)
  show ?thesis using C1_cache_probe [OF p] p by simp
qed

text \<open>
  The probe is not "hit iff the candidate exists and a newer source implies an equal body
  hash": here the candidate exists, the source (second 100) is newer than the cached
  \<open>ModTime\<close> (second 50), the body hash is the cached one, the force flag is off, and the
  probe is a miss.
\<close>

theorem C1_counterexample:
  "candidate (cachedService 50 ''hello'' False) [] ''a.md'' = Some (demoMeta 50 ''hello'' False)
 \<and> srcStat (cachedService 50 ''hello'' False) ''c/a.md'' = Some demoInfo
 \<and> ModTime (demoMeta 50 ''hello'' False) < Unix (fModTime demoInfo)
 \<and> BodyHash (demoMeta 50 ''hello'' False) = GetBodyHash demoLib ''hello''
 \<and> \<not> shouldForce demoFlags
 \<and> cacheProbe (cachedService 50 ''hello'' False) demoLib demoFlags [] ''c/a.md'' ''a.md''
      = Probed (Some (demoMeta 50 ''hello'' False)) (Some demoInfo) ''hello'' ''h:hello'' False"
  by (simp add: cacheProbe_def candidate_def cachedService_def demoService_def memCache_def
      livePosts_def demoMeta_def demoInfo_def demoLib_def demoFlags_def Unix_def seconds_def
      firstInfo_def existsByMtime_def existsByBody_def MaxFileSize_def Let_def)

subsection \<open>C2: the rendering decision\<close>

text \<open>
  C2, as the code has it. For a post that reaches the publish step, slot \<open>idx\<close> of the
  render queue is written (with the post's destination path, and \<open>anyPostChanged\<close> is
  set) exactly when \<open>outputMissing\<close> is set, or the post is a cache hit and \<open>os.Stat\<close>
  reports that the destination does not exist, or the post is a cache miss and the
  destination cannot be stat'ed or is not newer than the source. In every other case the
  render queue and \<open>anyPostChanged\<close> are left as they were.
\<close>

theorem C2_render_decision:
  assumes w: "worker s lib fl d st (idx, path, version) = Inr (ex, st')"
    and pub: "reachedPublish ex"
  shows "if outputMissing fl
            \<or> (if isHit s lib fl st path version
                then osStat s (destPath (derivePaths s lib path version)) = StatNotExist
                else destStale s path (destPath (derivePaths s lib path version)))
         then idx < length (renderQueue st)
            \<and> (\<exists>rc. renderQueue st' = (renderQueue st)[idx := rc]
                   \<and> DestPath rc = destPath (derivePaths s lib path version))
            \<and> anyPostChanged st'
         else renderQueue st' = renderQueue st \<and> anyPostChanged st' = anyPostChanged st"
  using w
proof (cases rule: worker_cases)
  case (oversize i)
  then show ?thesis using pub by simp
next
  case (renderError cm info source bodyHash useCache0)
  then show ?thesis using pub by simp
next
  case (draft cm info source bodyHash useCache0 c)
  then show ?thesis using pub by simp
next
  case (finished cm info source bodyHash useCache0 c st1)
  let ?p = "derivePaths s lib path version"
  let ?hit = "loadCached s (cacheCalls st) cm useCache0 \<noteq> None"
  have hit: "isHit s lib fl st path version = ?hit"
    using finished(1) by (simp add: isHit_def)
  have info: "info = srcStat s path" using cacheProbe_Probed(2) [OF finished(1)] .
  have q1: "renderQueue st1 = renderQueue st" "anyPostChanged st1 = anyPostChanged st"
    using resolveContent_frame(7,9) [OF finished(2)] by simp_all
  from finished(4) obtain wr st2 st3 info' where
    i': "info' = (if outputMissing fl \<or> ?hit then info
              else (case info of None \<Rightarrow> srcStat s path | Some i \<Rightarrow> Some i))"
    and wr: "willRender fl ?hit (osStat s (destPath ?p)) info' = Some wr"
    and enq: "enqueueRender wr idx (renderContextOf s lib ?p version c)
       (writeRawIfMissing s lib ?p path
         (socialCard s lib fl ?p path
           (cachedHashOf s (cacheCalls st) (relPath ?p) cm useCache0) c st1)) = Inr st2"
    and pb: "publish c st2 = Inr st3"
    and fin: "(d \<and> ex = ExitCancelled \<and> st' = st3) \<or>
     (\<not> d \<and> ex = ExitDone \<and>
        (\<exists>st4. stage s lib ?p version bodyHash info' ?hit c st3 = Inr st4 \<and>
           st' = st4\<lparr>postsProcessed := postsProcessed st4 + 1,
                          processedCount := processedCount st4 + 1\<rparr>))"
    by (rule finish_cases)
  have dec: "wr = (outputMissing fl
            \<or> (if ?hit then osStat s (destPath ?p) = StatNotExist
                else destStale s path (destPath ?p)))"
  proof (cases ?hit)
    case True
    then show ?thesis using wr willRender_hit by auto
  next
    case False
    then show ?thesis using wr i' info willRender_miss [of fl s "destPath ?p" path wr]
      by (auto split: if_splits)
  qed
  have q3: "renderQueue st' = renderQueue st2" "anyPostChanged st' = anyPostChanged st2"
    using fin publish_frame(4,5) [OF pb] stage_frame(4,5) by auto
  show ?thesis
  proof (cases wr)
    case True
    then have "idx < length (renderQueue st)"
      and "renderQueue st2 = (renderQueue st)[idx := renderContextOf s lib ?p version c]"
      and "anyPostChanged st2"
      using enq q1 by (auto simp: enqueueRender_def split: if_splits)
    moreover have "DestPath (renderContextOf s lib ?p version c) = destPath ?p"
      by (simp add: renderContextOf_def)
    ultimately show ?thesis using True dec hit q3 by auto
  next
    case False
    then have "renderQueue st2 = renderQueue st" "anyPostChanged st2 = anyPostChanged st"
      using enq q1 by (auto simp: enqueueRender_def)
    then show ?thesis using False dec hit q3 by auto
  qed
qed

theorem C2_render_decision_witness:
  "\<exists>st'. worker demoService demoLib demoFlags False (initState demoService 1 [])
            (0, ''c/a.md'', []) = Inr (ExitDone, st')
       \<and> reachedPublish ExitDone
       \<and> \<not> isHit demoService demoLib demoFlags (initState demoService 1 []) ''c/a.md'' []
       \<and> destStale demoService ''c/a.md'' ''o/a.html''
       \<and> (\<exists>rc. renderQueue st' = (renderQueue (initState demoService 1 []))[0 := rc]
              \<and> DestPath rc = ''o/a.html'')
       \<and> anyPostChanged st'"
proof -
  have "case worker demoService demoLib demoFlags False (initState demoService 1 [])
            (0, ''c/a.md'', []) of Inl e \<Rightarrow> False | Inr r \<Rightarrow> fst r = ExitDone"
    by code_simp
  then obtain st' where w: "worker demoService demoLib demoFlags False
      (initState demoService 1 []) (0, ''c/a.md'', []) = Inr (ExitDone, st')"
    by (auto split: sum.splits)
  have h: "\<not> isHit demoService demoLib demoFlags (initState demoService 1 []) ''c/a.md'' []"
    by code_simp
  have d: "destPath (derivePaths demoService demoLib ''c/a.md'' []) = ''o/a.html''"
    by code_simp
  have st: "destStale demoService ''c/a.md'' ''o/a.html''" by code_simp
  have om: "\<not> outputMissing demoFlags" by code_simp
  show ?thesis using C2_render_decision [OF w] w h d st om by simp
qed

text \<open>
  A cache miss alone does not render: with no cache at all (so \<open>a.md\<close> is a miss) and an
  output file newer than the source, the build counts one miss, leaves the render queue
  slot empty and submits no render task.
\<close>

theorem C2_counterexample:
  "map_sum id
     (\<lambda>out. (exits out, cacheMisses (final out), cacheHits (final out),
             map DestPath (renderQueue (final out)), length (renders out),
             AnyPostChanged (result out)))
     (Process freshService demoLib demoFlags neverDone)
   = Inr ([ExitDone], 1, 0, [[]], 0, False)"
  by code_simp

subsection \<open>C3: the main feed\<close>

text \<open>
  C3, as the code has it. For every post in the global metadata map at the end of a
  build: the post is in the main feed (\<open>PinnedPosts\<close> when pinned, \<open>AllPosts\<close> otherwise)
  exactly when it is unversioned, or its version is the name of a configured version
  marked \<open>IsLatest\<close>; and the main feed holds nothing but posts of the map.
\<close>

theorem C3_main_feed:
  assumes "Process s lib fl ctx = Inr out"
  shows "(\<forall>kv \<in> set (allMetadataMap (final out)).
            (snd kv \<in> set (if Pinned (snd kv) then PinnedPosts (result out)
                            else AllPosts (result out)))
            = (Version (snd kv) = []
               \<or> (\<exists>v\<in>set (Versions (cfg s)). IsLatest v \<and> Version (snd kv) = vName v)))
       \<and> set (AllPosts (result out)) \<union> set (PinnedPosts (result out))
            \<subseteq> snd ` set (allMetadataMap (final out))"
proof -
  from assms obtain st1 where
    f: "final out = commit s st1"
    and a: "AllPosts (result out) = SortPosts (allPosts (groupAll s lib (allMetadataMap st1)))"
    and p: "PinnedPosts (result out) = SortPosts (pinnedPosts (groupAll s lib (allMetadataMap st1)))"
    by (rule Process_cases)
  show ?thesis
    unfolding f a p commit_map
    by (auto simp: set_SortPosts groupAll_feed isLatestOrUnversioned_iff)
qed

theorem C3_main_feed_witness:
  "\<exists>out. Process demoService demoLib demoFlags neverDone = Inr out
       \<and> map Link (AllPosts (result out)) = [''/a.html'']
       \<and> set (AllPosts (result out)) \<union> set (PinnedPosts (result out))
            \<subseteq> snd ` set (allMetadataMap (final out))"
proof -
  have "case Process demoService demoLib demoFlags neverDone of
          Inl e \<Rightarrow> False | Inr out \<Rightarrow> map Link (AllPosts (result out)) = [''/a.html'']"
    by code_simp
  then obtain out where p: "Process demoService demoLib demoFlags neverDone = Inr out"
    and a: "map Link (AllPosts (result out)) = [''/a.html'']"
    by (auto split: sum.splits)
  have "set (AllPosts (result out)) \<union> set (PinnedPosts (result out))
            \<subseteq> snd ` set (allMetadataMap (final out))"
    using C3_main_feed [OF p] by (rule conjunct2)
  with p a show ?thesis by (intro exI [of _ out]) simp
qed

text \<open>
  With versions configured, an unversioned post is still in the main feed: the only
  configured version is \<open>v2\<close>, marked latest, and the post of \<open>a.md\<close>, whose version is
  empty, is in \<open>AllPosts\<close>.
\<close>

theorem C3_counterexample:
  "map (\<lambda>v. (vName v, IsLatest v)) (Versions (cfg versionedService)) = [(''v2'', True)]
 \<and> map_sum id (\<lambda>out. map (\<lambda>p. (Link p, Version p, Pinned p)) (AllPosts (result out)))
      (Process versionedService demoLib demoFlags neverDone)
    = Inr [(''/a.html'', [], False)]"
  by code_simp

subsection \<open>C4: cancellation and the cache commit\<close>

text \<open>
  C4, as the code has it. In a build that returns, \<open>BatchCommit\<close> is called once, with
  the staged records, exactly when a cache is configured and the staging area is not
  empty, cancelled or not; it is the build's only \<open>BatchCommit\<close>. Cancellation only
  bounds what is staged: no more records are staged than workers ran to their end, no
  worker is started once the submit loop has seen the context done, and a worker that
  sees the context done at its own check does not run to its end.
\<close>

theorem C4_commit_after_cancellation:
  assumes "Process s lib fl ctx = Inr out"
  shows "filter isBatchCommit (cacheCalls (final out))
           = (if cache s \<noteq> None \<and> newPostsMeta (final out) \<noteq> []
              then [BatchCommit (newPostsMeta (final out)) (newSearchRecords (final out))
                      (newDeps (final out))]
              else [])
       \<and> length (newPostsMeta (final out)) \<le> length (filter (\<lambda>e. e = ExitDone) (exits out))
       \<and> (\<forall>k. ctx (2 * k) \<longrightarrow> length (exits out) \<le> k)
       \<and> (\<forall>j<length (exits out). ctx (2 * j + 1) \<longrightarrow> exits out ! j \<noteq> ExitDone)"
proof -
  from assms obtain files has404 lg exs st1 where
    r: "runTasks s lib fl ctx
       (warmup s (sweep s lib (map fst files) (initState s (length files) lg)))
       (tasksOf files) = Inr (exs, st1)"
    and e: "exits out = exs"
    and f: "final out = commit s st1"
    by (rule Process_cases)
  have t: "tasksOf files = zip [0 ..< 0 + length files] files" by (simp add: tasksOf_def)
  note rs = runTasks_staging [OF r [unfolded t]]
  have c0: "filter isBatchCommit (cacheCalls st1) = []"
    and n: "length (newPostsMeta st1) \<le> length (filter (\<lambda>e. e = ExitDone) exs)"
    using rs by (simp_all add: start_state)
  show ?thesis
    unfolding f e commit_calls commit_frame
    using c0 n rs by simp
qed

theorem C4_commit_after_cancellation_witness:
  "\<exists>out. Process twoFileService demoLib demoFlags (doneFrom 2) = Inr out
       \<and> exits out = [ExitDone]
       \<and> length (newPostsMeta (final out)) \<le> 1
       \<and> filter isBatchCommit (cacheCalls (final out))
           = [BatchCommit (newPostsMeta (final out)) (newSearchRecords (final out))
                (newDeps (final out))]"
proof -
  have "case Process twoFileService demoLib demoFlags (doneFrom 2) of
          Inl e \<Rightarrow> False
        | Inr out \<Rightarrow> exits out = [ExitDone] \<and> length (newPostsMeta (final out)) = 1"
    by code_simp
  then obtain out where p: "Process twoFileService demoLib demoFlags (doneFrom 2) = Inr out"
    and e: "exits out = [ExitDone]" and n: "length (newPostsMeta (final out)) = 1"
    by (auto split: sum.splits)
  have c: "cache twoFileService \<noteq> None" by (simp add: twoFileService_def)
  have ne: "newPostsMeta (final out) \<noteq> []" using n by auto
  show ?thesis using C4_commit_after_cancellation [OF p] p e n c ne by auto
qed

text \<open>
  A cancelled build does commit: the context is done from tick 2 on, that is after
  \<open>a.md\<close> was processed and before \<open>b.md\<close> is submitted; the build returns with one
  worker exit, and its cache history ends with a \<open>BatchCommit\<close> of the record of
  \<open>a.md\<close>.
\<close>

theorem C4_counterexample:
  "doneFrom 2 2
 \<and> map_sum id
      (\<lambda>out. (exits out, map isBatchCommit (cacheCalls (final out)),
              map Path (newPostsMeta (final out))))
      (Process twoFileService demoLib demoFlags (doneFrom 2))
    = Inr ([ExitDone], [False, True], [''a.md''])"
  by code_simp

subsection \<open>C5: the change classifier\<close>

text \<open>
  C5. For a create/modify event on a content file that can be read, whose new body hash
  is a digest (so not the empty string): when the post is not in the cache the first and
  only rebuild is a full build; when it is cached and the front-matter hash differs, the
  same; when it is cached, the front-matter hash is the same and the body hash differs,
  the first rebuild is \<open>ProcessSingle\<close> on exactly this path, and it is the only rebuild
  when that call succeeds; when neither hash differs there is no rebuild at all.
\<close>

theorem C5_change_classifier:
  assumes "bReadFile b path = Some source"
    and "bGetBodyHash b source \<noteq> []"
  shows "(case cachedEntry b (bSafeRel b (bContentDir b) path) of
            None \<Rightarrow> rebuilds (buildSinglePost b path) = [Build]
          | Some m \<Rightarrow>
              if ContentHash m \<noteq> bGetFrontmatterHash b (bFrontMatter b path source)
              then rebuilds (buildSinglePost b path) = [Build]
              else if BodyHash m \<noteq> bGetBodyHash b source
              then hd (rebuilds (buildSinglePost b path)) = ProcessSingle path
                   \<and> (if bProcessSingleOk b path
                      then rebuilds (buildSinglePost b path) = [ProcessSingle path]
                      else rebuilds (buildSinglePost b path) = [ProcessSingle path, Build])
              else buildSinglePost b path = [Log Info ''No changes detected, skipping...''])"
  using assms
  by (auto simp: buildSinglePost_def fullBuild_def rebuilds_def Let_def split: option.splits)

theorem C5_change_classifier_witness:
  "bReadFile demoBuilder ''c/a.md'' = Some ''hello world''
 \<and> bGetBodyHash demoBuilder ''hello world'' \<noteq> []
 \<and> cachedEntry demoBuilder ''a.md'' = Some (demoMeta 50 ''hello'' False)
 \<and> rebuilds (buildSinglePost demoBuilder ''c/a.md'') = [ProcessSingle ''c/a.md'']"
  using C5_change_classifier [of demoBuilder "''c/a.md''" "''hello world''"]
  by (simp add: demoBuilder_def demoLib_def demoMeta_def memCache_def livePosts_def
      cachedEntry_def TrimPrefix_def)

subsection \<open>C6: dense search IDs\<close>

text \<open>
  C6, as the code has it. In a build over at most \<open>2^31\<close> posts, whether it returns or
  ends in a panic, let \<open>N\<close> be the number of posts that reached the publish step. The IDs
  handed out by the atomic counter are \<open>0, 1, ..., N - 1\<close>, in this order, one for each of
  these posts: every ID below \<open>N\<close> is assigned exactly once and no two posts receive the
  same ID. In a build that returns, \<open>N\<close> is the number of workers that left at or after
  the cancellation check, and the first \<open>N\<close> slots of \<open>IndexedPosts\<close> carry these IDs. A
  build that does not return ends in a panic, in the state \<open>atPanic\<close> gives.
\<close>

theorem C6_dense_ids:
  assumes "length (fst (walkContent s lib)) \<le> 2147483648"
  shows "(\<forall>out. Process s lib fl ctx = Inr out \<longrightarrow>
            assigned (final out) = map int [0 ..< length (filter reachedPublish (exits out))]
          \<and> length (filter reachedPublish (exits out)) \<le> length (IndexedPosts (result out))
          \<and> map (\<lambda>ip. ID (Record ip))
               (take (length (filter reachedPublish (exits out))) (IndexedPosts (result out)))
             = map int [0 ..< length (filter reachedPublish (exits out))])
       \<and> (\<forall>e st. atPanic s lib fl ctx = Some (e, st) \<longrightarrow>
            assigned st = map int [0 ..< length (assigned st)])
       \<and> (\<forall>e. Process s lib fl ctx = Inl e \<longleftrightarrow> (\<exists>st. atPanic s lib fl ctx = Some (e, st)))"
proof (intro conjI allI impI)
  fix out
  assume p: "Process s lib fl ctx = Inr out"
  from p obtain files has404 lg exs st1 where
    r: "runTasks s lib fl ctx
       (warmup s (sweep s lib (map fst files) (initState s (length files) lg)))
       (tasksOf files) = Inr (exs, st1)"
    and e: "exits out = exs"
    and f: "final out = commit s st1"
    and i: "IndexedPosts (result out) = indexedPosts (commit s st1)"
    by (rule Process_cases)
  let ?st0 = "warmup s (sweep s lib (map fst files) (initState s (length files) lg))"
  let ?n = "length (filter reachedPublish exs)"
  have d: "sint (indexedPostIdx st1) = int (0 + ?n) - 1
       \<and> 0 + ?n \<le> length (indexedPosts st1)
       \<and> (\<forall>j < 0 + ?n. ID (Record (indexedPosts st1 ! j)) = int j)
       \<and> length exs \<le> length (tasksOf files)"
    by (rule runTasks_dense [OF r]) (simp_all add: start_state)
  have a: "assigned st1 = assigned ?st0 @ map int [0 ..< 0 + ?n]"
    by (rule assigned_runTasks [OF r]) (simp_all add: start_state)
  have len: "?n \<le> length (indexedPosts st1)" using d by simp
  have m: "map (\<lambda>ip. ID (Record ip)) (take ?n (indexedPosts st1)) = map int [0 ..< ?n]"
    using d len by (intro nth_equalityI) simp_all
  show "assigned (final out) = map int [0 ..< length (filter reachedPublish (exits out))]"
    using e f a by (simp add: assigned_commit assigned_start)
  show "length (filter reachedPublish (exits out)) \<le> length (IndexedPosts (result out))"
    using len e i by (simp add: commit_frame)
  show "map (\<lambda>ip. ID (Record ip))
               (take (length (filter reachedPublish (exits out))) (IndexedPosts (result out)))
             = map int [0 ..< length (filter reachedPublish (exits out))]"
    using m e i by (simp add: commit_frame)
next
  fix e st
  assume p: "atPanic s lib fl ctx = Some (e, st)"
  obtain files has404 lg where wc: "walkContent s lib = (files, has404, lg)"
    by (cases "walkContent s lib") auto
  let ?st0 = "warmup s (sweep s lib (map fst files) (initState s (length files) lg))"
  have r: "runTasks s lib fl ctx ?st0 (tasksOf files) = Inl (e, st)"
    using p wc unfolding atPanic_def by (auto split: sum.splits prod.splits)
  have "\<exists>m. assigned st = assigned ?st0 @ map int [0 ..< 0 + m]"
    using assms wc
    by (intro assigned_runTasks_panic [OF r]) (simp_all add: start_state tasksOf_facts)
  then obtain m where "assigned st = map int [0 ..< m]" by (auto simp: assigned_start)
  then show "assigned st = map int [0 ..< length (assigned st)]" by simp
next
  fix e
  show "Process s lib fl ctx = Inl e \<longleftrightarrow> (\<exists>st. atPanic s lib fl ctx = Some (e, st))"
    by (rule Process_atPanic)
qed

text \<open>
  Two builds of two posts. In the first both posts are published: they receive the IDs
  \<open>0\<close> and \<open>1\<close>, and the two slots of \<open>IndexedPosts\<close> hold \<open>a.html\<close> under ID \<open>0\<close> and
  \<open>b.html\<close> under ID \<open>1\<close>. The second build has a cache and cannot stat \<open>c/b.md\<close>: it
  panics on the nil file information when it stages the second post, after the IDs \<open>0\<close>
  and \<open>1\<close> have been handed out.
\<close>

theorem C6_dense_ids_witness:
  "length (fst (walkContent twoPostService demoLib)) \<le> 2147483648
 \<and> (\<exists>out. Process twoPostService demoLib demoFlags neverDone = Inr out
       \<and> exits out = [ExitDone, ExitDone]
       \<and> assigned (final out) = [0, 1]
       \<and> map (\<lambda>ip. (ID (Record ip), rLink (Record ip))) (IndexedPosts (result out))
           = [(0, ''a.html''), (1, ''b.html'')])
 \<and> length (fst (walkContent twoFileService demoLib)) \<le> 2147483648
 \<and> (\<exists>st. atPanic twoFileService demoLib demoFlags neverDone = Some (NilDereference, st)
       \<and> assigned st = [0, 1])"
proof -
  have "fst (walkContent twoPostService demoLib) = [(''c/a.md'', []), (''c/b.md'', [])]"
    by code_simp
  then have a: "length (fst (walkContent twoPostService demoLib)) \<le> 2147483648" by simp
  have "case Process twoPostService demoLib demoFlags neverDone of
          Inl e \<Rightarrow> False
        | Inr out \<Rightarrow> exits out = [ExitDone, ExitDone]
            \<and> map (\<lambda>ip. rLink (Record ip)) (IndexedPosts (result out)) = [''a.html'', ''b.html'']"
    by code_simp
  then obtain out where p: "Process twoPostService demoLib demoFlags neverDone = Inr out"
    and e: "exits out = [ExitDone, ExitDone]"
    and l: "map (\<lambda>ip. rLink (Record ip)) (IndexedPosts (result out)) = [''a.html'', ''b.html'']"
    by (auto split: sum.splits)
  have "fst (walkContent twoFileService demoLib) = [(''c/a.md'', []), (''c/b.md'', [])]"
    by code_simp
  then have b: "length (fst (walkContent twoFileService demoLib)) \<le> 2147483648" by simp
  have "case atPanic twoFileService demoLib demoFlags neverDone of
          None \<Rightarrow> False | Some (e, st) \<Rightarrow> e = NilDereference \<and> length (assigned st) = 2"
    by code_simp
  then obtain st where q: "atPanic twoFileService demoLib demoFlags neverDone = Some (NilDereference, st)"
    and n: "length (assigned st) = 2"
    by (auto split: option.splits)
  have c: "map int [0 ..< Suc (Suc 0)] = [0, 1]" by (simp add: upt_conv_Cons)
  have len: "length (IndexedPosts (result out)) = Suc (Suc 0)"
    using arg_cong [OF l, of length] by simp
  have n2: "length (filter reachedPublish (exits out)) = Suc (Suc 0)" using e by simp
  from C6_dense_ids [OF a, of demoFlags neverDone] p
  have "assigned (final out) = map int [0 ..< length (filter reachedPublish (exits out))]
      \<and> map (\<lambda>ip. ID (Record ip))
           (take (length (filter reachedPublish (exits out))) (IndexedPosts (result out)))
         = map int [0 ..< length (filter reachedPublish (exits out))]"
    by blast
  then have 1: "assigned (final out) = [0, 1]"
    and 3: "map (\<lambda>ip. ID (Record ip)) (IndexedPosts (result out)) = [0, 1]"
    unfolding n2 c using len by simp_all
  have 4: "map (\<lambda>ip. (ID (Record ip), rLink (Record ip))) (IndexedPosts (result out))
           = [(0, ''a.html''), (1, ''b.html'')]"
    using 3 l by (auto simp: map_eq_Cons_conv)
  have n': "length (assigned st) = Suc (Suc 0)" using n by simp
  from C6_dense_ids [OF b, of demoFlags neverDone] q
  have "assigned st = map int [0 ..< length (assigned st)]" by blast
  then have 5: "assigned st = [0, 1]" unfolding n' c .
  have A: "\<exists>out. Process twoPostService demoLib demoFlags neverDone = Inr out
       \<and> exits out = [ExitDone, ExitDone]
       \<and> assigned (final out) = [0, 1]
       \<and> map (\<lambda>ip. (ID (Record ip), rLink (Record ip))) (IndexedPosts (result out))
           = [(0, ''a.html''), (1, ''b.html'')]"
    using p e 1 4 by (intro exI [of _ out] conjI)
  have B: "\<exists>st. atPanic twoFileService demoLib demoFlags neverDone = Some (NilDereference, st)
       \<and> assigned st = [0, 1]"
    using q 5 by (intro exI [of _ st] conjI)
  show ?thesis using a A b B by (intro conjI)
qed

text \<open>
  C6 without the bound. With \<open>2^31 + 1\<close> posts that all reach the publish step, the build
  panics at the last one; by then the counter has handed out \<open>2^31 + 1\<close> IDs, and the
  last of them is \<open>-2^31\<close>: it is not an ID of \<open>[0, N)\<close>, and the ID \<open>2^31\<close> is never
  assigned.
\<close>

theorem C6_counterexample:
  "map_option (\<lambda>(e, st). (e, length (assigned st), last (assigned st)))
     (atPanic (manyFilesService 2147483649) demoLib demoFlags neverDone)
   = Some (IndexOutOfRange, 2147483649, - 2147483648)"
proof -
  have "\<exists>stp. atPanic (manyFilesService 2147483649) demoLib demoFlags neverDone
                 = Some (IndexOutOfRange, stp)
             \<and> length (assigned stp) = 2147483649
             \<and> last (assigned stp) = - 2147483648"
    by (rule many_atPanic) simp
  then show ?thesis by auto
qed

subsection \<open>C7: drafts\<close>

text \<open>
  C7. A draft is not dropped from the global metadata map when the warm-up has put it
  there. In the first build the cache holds \<open>a.md\<close> as a draft (from a build that
  included drafts) and the source is unchanged: the worker leaves at the draft gate, and
  the post, with its draft flag set, is in the map and in \<open>AllPosts\<close>. In the second the
  cache holds \<open>a.md\<close> as published and the source has since been marked a draft: the
  worker leaves at the draft gate, and the cached entry is in the map and in \<open>AllPosts\<close>.
  Drafts are excluded in both builds.
\<close>

theorem C7_draft_in_main_feed:
  "\<not> IncludeDrafts (cfg (cachedService 100 ''hello'' True))
 \<and> map_sum id
      (\<lambda>out. (exits out, map (\<lambda>p. (Link p, Draft p)) (AllPosts (result out)),
              map fst (allMetadataMap (final out))))
      (Process (cachedService 100 ''hello'' True) demoLib demoFlags neverDone)
    = Inr ([ExitDraft], [(''/a.html'', True)], [''/a.html''])
 \<and> \<not> IncludeDrafts (cfg editedToDraftService)
 \<and> map_sum id
      (\<lambda>out. (exits out, map Link (AllPosts (result out)),
              map fst (allMetadataMap (final out))))
      (Process editedToDraftService demoLib demoFlags neverDone)
    = Inr ([ExitDraft], [''/a.html''], [''/a.html''])"
  by code_simp

subsection \<open>C8: oversized files\<close>

text \<open>
  C8. For a source file whose size exceeds \<open>MaxFileSize\<close>, the worker logs a warning and
  returns with nothing else changed: no render task, no staged cache entry, no search ID.
  The other posts are built as without it. First, unless the build is cancelled before
  the file is submitted, the run of the oversized post followed by any posts has the
  outcome of the run of these posts alone, with the exit of the skipped post in front and
  a state that differs at most in the log. Second, a post processed after the skip whose
  source can be stat'ed, whose content resolves, that is not a dropped draft and whose
  slots exist reaches the publish step as it would have without the skip: its metadata
  is stored under its link, it receives the next search ID, its record is written at
  that position of \<open>indexedPosts\<close>, and its slot of the render queue is written exactly
  when the rendering decision says so.
\<close>

theorem C8_oversize_skipped:
  assumes "srcStat s path = Some i" and "MaxFileSize < fSize i"
  shows "worker s lib fl ctxDone st (idx, path, version)
           = Inr (ExitOversize,
                  st\<lparr>logs := logs st @ [(Warn, ''File exceeds size limit, skipping'', path)]\<rparr>)
       \<and> (\<not> ctx (2 * idx) \<longrightarrow>
            sameOutcome (runTasks s lib fl ctx st ((idx, path, version) # ts))
              (map_sum id (\<lambda>(exs, st'). (ExitOversize # exs, st')) (runTasks s lib fl ctx st ts)))
       \<and> (srcStat s path' = Some i'
            \<and> resolved s lib fl st path' version' = Some c
            \<and> \<not> (Draft (post c) \<and> \<not> IncludeDrafts (cfg s))
            \<and> idx' < length (renderQueue st)
            \<and> 0 \<le> sint (indexedPostIdx st + 1)
            \<and> sint (indexedPostIdx st + 1) < int (length (indexedPosts st)) \<longrightarrow>
            (\<exists>ex st'.
               worker s lib fl d
                 (st\<lparr>logs := logs st @ [(Warn, ''File exceeds size limit, skipping'', path)]\<rparr>)
                 (idx', path', version') = Inr (ex, st')
             \<and> reachedPublish ex
             \<and> map_of (allMetadataMap st') (Link (post c)) = Some (post c)
             \<and> assigned st' = assigned st @ [sint (indexedPostIdx st + 1)]
             \<and> indexedPosts st' = (indexedPosts st)[nat (sint (indexedPostIdx st + 1)) :=
                   \<lparr>Record = (searchRecord c)\<lparr>ID := sint (indexedPostIdx st + 1)\<rparr>,
                    WordFreqs = wordFreqs c, DocLen = docLen c\<rparr>]
             \<and> renderQueue st' =
                   (if willRender fl (isHit s lib fl st path' version')
                         (osStat s (destPath (derivePaths s lib path' version'))) (Some i')
                       = Some True
                    then (renderQueue st)[idx' := renderContextOf s lib
                            (derivePaths s lib path' version') version' c]
                    else renderQueue st)))"
proof -
  let ?w = "st\<lparr>logs := logs st @ [(Warn, ''File exceeds size limit, skipping'', path)]\<rparr>"
  let ?sid = "sint (indexedPostIdx st + 1)"
  let ?P = "\<lambda>x ex st'.
               worker s lib fl d x (idx', path', version') = Inr (ex, st')
             \<and> reachedPublish ex
             \<and> map_of (allMetadataMap st') (Link (post c)) = Some (post c)
             \<and> assigned st' = assigned st @ [?sid]
             \<and> indexedPosts st' = (indexedPosts st)[nat ?sid :=
                   \<lparr>Record = (searchRecord c)\<lparr>ID := ?sid\<rparr>,
                    WordFreqs = wordFreqs c, DocLen = docLen c\<rparr>]
             \<and> renderQueue st' =
                   (if willRender fl (isHit s lib fl st path' version')
                         (osStat s (destPath (derivePaths s lib path' version'))) (Some i')
                       = Some True
                    then (renderQueue st)[idx' := renderContextOf s lib
                            (derivePaths s lib path' version') version' c]
                    else renderQueue st)"
  have w: "worker s lib fl d' st (idx, path, version) = Inr (ExitOversize, ?w)" for d'
    using assms
    by (simp add: worker_def cacheProbe_def firstInfo_def logMsg_def Let_def split: option.splits)
  have 1: "worker s lib fl ctxDone st (idx, path, version) = Inr (ExitOversize, ?w)" by (rule w)
  have 2: "sameOutcome (runTasks s lib fl ctx st ((idx, path, version) # ts))
              (map_sum id (\<lambda>(exs, st'). (ExitOversize # exs, st')) (runTasks s lib fl ctx st ts))"
    if nc: "\<not> ctx (2 * idx)"
  proof -
    have "sameOutcome (runTasks s lib fl ctx ?w ts) (runTasks s lib fl ctx st ts)"
      by (rule runTasks_sbl) simp
    then show ?thesis
    proof (cases rule: sameOutcome_cases)
      case (panic e a b)
      then show ?thesis using nc w by simp
    next
      case (ok exs a b)
      then show ?thesis using nc w by simp
    qed
  qed
  have 3: "\<exists>ex st'. ?P ?w ex st'"
    if h: "srcStat s path' = Some i'
            \<and> resolved s lib fl st path' version' = Some c
            \<and> \<not> (Draft (post c) \<and> \<not> IncludeDrafts (cfg s))
            \<and> idx' < length (renderQueue st)
            \<and> 0 \<le> sint (indexedPostIdx st + 1)
            \<and> sint (indexedPostIdx st + 1) < int (length (indexedPosts st))"
  proof -
    from h have "\<exists>ex st'. ?P st ex st'"
      by (intro worker_publishes) simp_all
    then obtain ex st1 where
      w1: "worker s lib fl d st (idx', path', version') = Inr (ex, st1)"
      and p1: "?P st ex st1"
      by blast
    have "sameOutcome (worker s lib fl d ?w (idx', path', version'))
            (worker s lib fl d st (idx', path', version'))"
      by (rule worker_sbl) simp
    then obtain st2 where
      w2: "worker s lib fl d ?w (idx', path', version') = Inr (ex, st2)"
      and s2: "sameButLogs st2 st1"
      using w1 by (cases rule: sameOutcome_cases) auto
    have "?P ?w ex st2"
      using w2 p1 sameButLogs_fields [OF s2] by simp
    then show ?thesis by blast
  qed
  show ?thesis using 1 2 3 by blast
qed

text \<open>
  The build of \<open>c/huge.md\<close> (11 MiB) and \<open>c/a.md\<close>: the first worker leaves at the size
  gate with the warning, the second renders \<open>a.md\<close> and publishes it under the ID \<open>0\<close>;
  the build submits the one render task \<open>o/a.html\<close>, and \<open>AllPosts\<close> holds \<open>/a.html\<close>
  alone.
\<close>

theorem C8_oversize_skipped_witness:
  "srcStat hugeFirstService ''c/huge.md'' = Some hugeInfo
 \<and> MaxFileSize < fSize hugeInfo
 \<and> worker hugeFirstService demoLib demoFlags False (initState hugeFirstService 2 [])
       (0, ''c/huge.md'', [])
     = Inr (ExitOversize,
            (initState hugeFirstService 2 [])
              \<lparr>logs := [(Warn, ''File exceeds size limit, skipping'', ''c/huge.md'')]\<rparr>)
 \<and> \<not> neverDone (2 * 0)
 \<and> sameOutcome
      (runTasks hugeFirstService demoLib demoFlags neverDone (initState hugeFirstService 2 [])
         [(0, ''c/huge.md'', []), (1, ''c/a.md'', [])])
      (map_sum id (\<lambda>(exs, st'). (ExitOversize # exs, st'))
         (runTasks hugeFirstService demoLib demoFlags neverDone (initState hugeFirstService 2 [])
            [(1, ''c/a.md'', [])]))
 \<and> (\<exists>c ex st'.
       resolved hugeFirstService demoLib demoFlags (initState hugeFirstService 2 []) ''c/a.md'' []
         = Some c
     \<and> \<not> Draft (post c)
     \<and> Link (post c) = ''/a.html''
     \<and> worker hugeFirstService demoLib demoFlags False
          ((initState hugeFirstService 2 [])
             \<lparr>logs := [(Warn, ''File exceeds size limit, skipping'', ''c/huge.md'')]\<rparr>)
          (1, ''c/a.md'', []) = Inr (ex, st')
     \<and> reachedPublish ex
     \<and> map_of (allMetadataMap st') ''/a.html'' = Some (post c)
     \<and> assigned st' = [0]
     \<and> map DestPath (renderQueue st') = [[], ''o/a.html''])
 \<and> map_sum id
      (\<lambda>out. (exits out, map DestPath (renders out),
              map (\<lambda>ip. (ID (Record ip), rLink (Record ip))) (IndexedPosts (result out)),
              map Link (AllPosts (result out)), logs (final out), assigned (final out)))
      (Process hugeFirstService demoLib demoFlags neverDone)
    = Inr ([ExitOversize, ExitDone], [''o/a.html''], [(0, ''a.html''), (0, [])],
           [''/a.html''], [(Warn, ''File exceeds size limit, skipping'', ''c/huge.md'')], [0])"
proof -
  let ?st = "initState hugeFirstService 2 []"
  let ?warn = "(Warn, ''File exceeds size limit, skipping'', ''c/huge.md'')"
  have a: "srcStat hugeFirstService ''c/huge.md'' = Some hugeInfo"
    by (simp add: hugeFirstService_def)
  have b: "MaxFileSize < fSize hugeInfo"
    by (simp add: hugeInfo_def MaxFileSize_def)
  have a': "srcStat hugeFirstService ''c/a.md'' = Some demoInfo"
    by (simp add: hugeFirstService_def)
  have nd: "\<not> IncludeDrafts (cfg hugeFirstService)"
    by (simp add: hugeFirstService_def demoService_def demoCfg_def)
  have st: "logs ?st = []" "assigned ?st = []" "indexedPostIdx ?st = - 1"
    "renderQueue ?st = [zeroRenderContext, zeroRenderContext]"
    "indexedPosts ?st = [zeroIndexedPost, zeroIndexedPost]"
    by (simp_all add: initState_def numeral_2_eq_2)
  have "case resolved hugeFirstService demoLib demoFlags ?st ''c/a.md'' [] of
          None \<Rightarrow> False
        | Some c \<Rightarrow> \<not> Draft (post c) \<and> Link (post c) = ''/a.html''"
    by code_simp
  then obtain c where
    r: "resolved hugeFirstService demoLib demoFlags ?st ''c/a.md'' [] = Some c"
    and c: "\<not> Draft (post c)" "Link (post c) = ''/a.html''"
    by (auto split: option.splits)
  have wr: "willRender demoFlags (isHit hugeFirstService demoLib demoFlags ?st ''c/a.md'' [])
              (osStat hugeFirstService (destPath (derivePaths hugeFirstService demoLib ''c/a.md'' [])))
              (Some demoInfo) = Some True"
    by code_simp
  have dp: "destPath (derivePaths hugeFirstService demoLib ''c/a.md'' []) = ''o/a.html''"
    by code_simp
  have nc: "\<not> neverDone (2 * 0)" by (simp add: neverDone_def)
  have p: "map_sum id
      (\<lambda>out. (exits out, map DestPath (renders out),
              map (\<lambda>ip. (ID (Record ip), rLink (Record ip))) (IndexedPosts (result out)),
              map Link (AllPosts (result out)), logs (final out), assigned (final out)))
      (Process hugeFirstService demoLib demoFlags neverDone)
    = Inr ([ExitOversize, ExitDone], [''o/a.html''], [(0, ''a.html''), (0, [])],
           [''/a.html''], [?warn], [0])"
    by code_simp
  note T = C8_oversize_skipped [OF a b, where lib = demoLib and fl = demoFlags and st = ?st
      and idx = 0 and version = "[]" and ctx = neverDone and ts = "[(1, ''c/a.md'', [])]"
      and path' = "''c/a.md''" and i' = demoInfo and version' = "[]" and c = c and idx' = 1
      and d = False and ctxDone = False]
  have 1: "worker hugeFirstService demoLib demoFlags False ?st (0, ''c/huge.md'', [])
     = Inr (ExitOversize, ?st\<lparr>logs := [?warn]\<rparr>)"
    using T st(1) by simp
  have 2: "sameOutcome
      (runTasks hugeFirstService demoLib demoFlags neverDone ?st
         [(0, ''c/huge.md'', []), (1, ''c/a.md'', [])])
      (map_sum id (\<lambda>(exs, st'). (ExitOversize # exs, st'))
         (runTasks hugeFirstService demoLib demoFlags neverDone ?st [(1, ''c/a.md'', [])]))"
    using T nc by blast
  let ?p = "derivePaths hugeFirstService demoLib ''c/a.md'' []"
  have h: "srcStat hugeFirstService ''c/a.md'' = Some demoInfo
         \<and> resolved hugeFirstService demoLib demoFlags ?st ''c/a.md'' [] = Some c
         \<and> \<not> (Draft (post c) \<and> \<not> IncludeDrafts (cfg hugeFirstService))
         \<and> 1 < length (renderQueue ?st)
         \<and> 0 \<le> sint (indexedPostIdx ?st + 1)
         \<and> sint (indexedPostIdx ?st + 1) < int (length (indexedPosts ?st))"
    using a' r c st by simp
  from T h obtain ex st' where
    w: "worker hugeFirstService demoLib demoFlags False
          (?st\<lparr>logs := logs ?st @ [?warn]\<rparr>) (1, ''c/a.md'', []) = Inr (ex, st')"
    and rp: "reachedPublish ex"
    and mm: "map_of (allMetadataMap st') (Link (post c)) = Some (post c)"
    and asg: "assigned st' = assigned ?st @ [sint (indexedPostIdx ?st + 1)]"
    and rq: "renderQueue st' =
               (if willRender demoFlags (isHit hugeFirstService demoLib demoFlags ?st ''c/a.md'' [])
                     (osStat hugeFirstService (destPath ?p)) (Some demoInfo) = Some True
                then (renderQueue ?st)[1 := renderContextOf hugeFirstService demoLib ?p [] c]
                else renderQueue ?st)"
    by blast
  have w': "worker hugeFirstService demoLib demoFlags False (?st\<lparr>logs := [?warn]\<rparr>)
          (1, ''c/a.md'', []) = Inr (ex, st')"
    using w st(1) by simp
  have mm': "map_of (allMetadataMap st') ''/a.html'' = Some (post c)" using mm c by simp
  have asg': "assigned st' = [0]" using asg st by simp
  have "renderQueue st' = (renderQueue ?st)[1 := renderContextOf hugeFirstService demoLib ?p [] c]"
    using rq wr by simp
  then have rq': "map DestPath (renderQueue st') = [[], ''o/a.html'']"
    using dp by (simp add: st(4) renderContextOf_def zeroRenderContext_def)
  have 3: "\<exists>c ex st'.
       resolved hugeFirstService demoLib demoFlags ?st ''c/a.md'' [] = Some c
     \<and> \<not> Draft (post c)
     \<and> Link (post c) = ''/a.html''
     \<and> worker hugeFirstService demoLib demoFlags False (?st\<lparr>logs := [?warn]\<rparr>)
          (1, ''c/a.md'', []) = Inr (ex, st')
     \<and> reachedPublish ex
     \<and> map_of (allMetadataMap st') ''/a.html'' = Some (post c)
     \<and> assigned st' = [0]
     \<and> map DestPath (renderQueue st') = [[], ''o/a.html'']"
    using r c w' rp mm' asg' rq' by (intro exI [of _ c] exI [of _ ex] exI [of _ st'] conjI)
  show ?thesis using a b 1 nc 2 3 p by (intro conjI)
qed

subsection \<open>C9: writes into the preallocated slice\<close>

text \<open>
  C9, as the code has it. When the content directory holds at most \<open>2^31\<close> posts, no
  write into \<open>indexedPosts\<close> (or into the render queue) is out of bounds; at most
  \<open>len(files)\<close> workers run, \<open>indexedPosts\<close> has \<open>len(files)\<close> slots, and the counter,
  which starts at \<open>-1\<close>, ends at \<open>-1\<close> plus the number of workers that reached the
  publish step: each of them added one to it exactly once.
\<close>

theorem C9_writes_in_bounds:
  assumes "length (fst (walkContent s lib)) \<le> 2147483648"
  shows "Process s lib fl ctx \<noteq> Inl IndexOutOfRange
       \<and> (\<forall>out. Process s lib fl ctx = Inr out \<longrightarrow>
            length (exits out) \<le> length (fst (walkContent s lib))
          \<and> length (IndexedPosts (result out)) = length (fst (walkContent s lib))
          \<and> sint (indexedPostIdx (final out))
              = - 1 + int (length (filter reachedPublish (exits out))))"
proof -
  obtain files has404 lg where wc: "walkContent s lib = (files, has404, lg)"
    by (cases "walkContent s lib") auto
  let ?st0 = "warmup s (sweep s lib (map fst files) (initState s (length files) lg))"
  have nb: "runTasks s lib fl ctx ?st0 (tasksOf files) \<noteq> Inl (IndexOutOfRange, stp)" for stp
    using assms wc
    by (intro runTasks_in_bounds [where k = 0]) (simp_all add: start_state tasksOf_facts)
  have 1: "Process s lib fl ctx \<noteq> Inl IndexOutOfRange"
    using nb wc unfolding Process_def Let_def by (auto split: sum.splits prod.splits)
  have 2: "length (exits out) \<le> length (fst (walkContent s lib))
          \<and> length (IndexedPosts (result out)) = length (fst (walkContent s lib))
          \<and> sint (indexedPostIdx (final out))
              = - 1 + int (length (filter reachedPublish (exits out)))"
    if p: "Process s lib fl ctx = Inr out" for out
  proof -
    from p obtain files' has404' lg' exs st1 where
      wc': "walkContent s lib = (files', has404', lg')"
      and r: "runTasks s lib fl ctx
         (warmup s (sweep s lib (map fst files') (initState s (length files') lg')))
         (tasksOf files') = Inr (exs, st1)"
      and e: "exits out = exs"
      and f: "final out = commit s st1"
      and i: "IndexedPosts (result out) = indexedPosts (commit s st1)"
      by (rule Process_cases)
    have eq: "files' = files" using wc wc' by simp
    let ?n = "length (filter reachedPublish exs)"
    have d: "sint (indexedPostIdx st1) = int (0 + ?n) - 1
         \<and> 0 + ?n \<le> length (indexedPosts st1)
         \<and> (\<forall>j < 0 + ?n. ID (Record (indexedPosts st1 ! j)) = int j)
         \<and> length exs \<le> length (tasksOf files')"
      by (rule runTasks_dense [OF r]) (simp_all add: start_state)
    have l: "length (indexedPosts st1) = length files'"
      using runTasks_lengths [OF r] by (simp add: start_state)
    show ?thesis using d l e f i wc' by (simp add: commit_frame tasksOf_facts)
  qed
  show ?thesis using 1 2 by blast
qed

theorem C9_writes_in_bounds_witness:
  "length (fst (walkContent demoService demoLib)) \<le> 2147483648
 \<and> Process demoService demoLib demoFlags neverDone \<noteq> Inl IndexOutOfRange"
proof -
  have "fst (walkContent demoService demoLib) = [(''c/a.md'', [])]" by code_simp
  then have a: "length (fst (walkContent demoService demoLib)) \<le> 2147483648" by simp
  show ?thesis using C9_writes_in_bounds [OF a] a by simp
qed

text \<open>
  With \<open>2^31 + 1\<close> posts that all reach the publish step, the \<open>int32\<close> counter wraps
  around at the last one: the ID is \<open>-2^31\<close>, and the write into \<open>indexedPosts\<close> is out of
  bounds.
\<close>

theorem C9_counterexample:
  "length (fst (walkContent (manyFilesService 2147483649) demoLib)) = 2147483649
 \<and> Process (manyFilesService 2147483649) demoLib demoFlags neverDone = Inl IndexOutOfRange"
proof -
  have "length (fst (walkContent (manyFilesService 2147483649) demoLib)) = 2147483649"
    unfolding many_walk fst_conv by (rule length_replicate)
  moreover have "Process (manyFilesService 2147483649) demoLib demoFlags neverDone
                   = Inl IndexOutOfRange"
    by (rule many_process) simp
  ultimately show ?thesis by (rule conjI)
qed

subsection \<open>C10: the raw-source mirror of a draft\<close>

text \<open>
  C10. With the raw-source mirror enabled (and a mirror path that can be written), a post
  that misses the cache and is not skipped for its size has its source in the mirror file
  when its worker returns, wherever it returns: the file is written before the draft
  gate. So when the worker leaves at the draft gate, the mirror file is there, while the
  render queue, the indexed posts and their counter, the card tasks, the global metadata
  map and the staging area are as they were before. The concrete run after the theorem
  is such a draft.
\<close>

theorem C10_raw_markdown_before_draft_gate:
  assumes raw: "RawMarkdown (cfg s)"
    and ok: "WriteFileOk s (mdDestPathOf lib (destPath (derivePaths s lib path version)))"
    and miss: "\<not> isHit s lib fl st path version"
    and w: "worker s lib fl d st (idx, path, version) = Inr (ex, st')"
    and ns: "ex \<noteq> ExitOversize"
  shows "destFs st' (mdDestPathOf lib (destPath (derivePaths s lib path version)))
           = Some \<lparr>nIsDir = False, nModTime = now s,
                    nContent = (case srcReadFile s path of None \<Rightarrow> [] | Some b \<Rightarrow> b)\<rparr>
       \<and> (ex = ExitDraft \<longrightarrow>
            renderQueue st' = renderQueue st
          \<and> indexedPosts st' = indexedPosts st
          \<and> indexedPostIdx st' = indexedPostIdx st
          \<and> cardTasks st' = cardTasks st
          \<and> allMetadataMap st' = allMetadataMap st
          \<and> newPostsMeta st' = newPostsMeta st
          \<and> newSearchRecords st' = newSearchRecords st
          \<and> newDeps st' = newDeps st)"
proof -
  let ?p = "derivePaths s lib path version"
  let ?src = "case srcReadFile s path of None \<Rightarrow> [] | Some b \<Rightarrow> b"
  let ?st0 = "writeRawOnMiss s lib ?p ?src (st\<lparr>cacheMisses := cacheMisses st + 1\<rparr>)"
  have w0: "destFs ?st0 (mdDestPathOf lib (destPath ?p))
              = Some \<lparr>nIsDir = False, nModTime = now s, nContent = ?src\<rparr>"
    by (rule writeRawOnMiss_written [OF raw ok])
  have written: "destFs st' (mdDestPathOf lib (destPath ?p))
              = Some \<lparr>nIsDir = False, nModTime = now s, nContent = ?src\<rparr>"
    using w
  proof (cases rule: worker_cases)
    case (oversize i)
    then show ?thesis using ns by simp
  next
    case (renderError cm info source bodyHash useCache0)
    have l: "loadCached s (cacheCalls st) cm useCache0 = None"
      using miss renderError(1)
      by (cases "loadCached s (cacheCalls st) cm useCache0") (auto simp: isHit_def)
    have src: "source = ?src" using cacheProbe_Probed(3) [OF renderError(1)] .
    have "st' = logMsg Error ''Failed to render markdown'' path ?st0"
      using renderError(2) l src
      by (auto simp: resolveContent_def missContent_def Let_def split: option.splits)
    then show ?thesis using w0 by simp
  next
    case (draft cm info source bodyHash useCache0 c)
    have l: "loadCached s (cacheCalls st) cm useCache0 = None"
      using miss draft(1)
      by (cases "loadCached s (cacheCalls st) cm useCache0") (auto simp: isHit_def)
    have src: "source = ?src" using cacheProbe_Probed(3) [OF draft(1)] .
    have "st' = ?st0"
      using draft(2) l src
      by (auto simp: resolveContent_def missContent_def Let_def split: option.splits)
    then show ?thesis using w0 by simp
  next
    case (finished cm info source bodyHash useCache0 c st1)
    have l: "loadCached s (cacheCalls st) cm useCache0 = None"
      using miss finished(1)
      by (cases "loadCached s (cacheCalls st) cm useCache0") (auto simp: isHit_def)
    have src: "source = ?src" using cacheProbe_Probed(3) [OF finished(1)] .
    have "st1 = ?st0"
      using finished(2) l src
      by (auto simp: resolveContent_def missContent_def Let_def split: option.splits)
    then show ?thesis using finish_keeps [OF finished(4)] w0 by simp
  qed
  show ?thesis
  proof (cases "ex = ExitDraft")
    case True
    then have w': "worker s lib fl d st (idx, path, version) = Inr (ExitDraft, st')"
      using w by simp
    show ?thesis using written draft_exit_frame [OF w'] by simp
  next
    case False
    then show ?thesis using written by simp
  qed
qed

theorem C10_raw_markdown_before_draft_gate_witness:
  "RawMarkdown (cfg draftRawService)
 \<and> WriteFileOk draftRawService ''o/a.md''
 \<and> \<not> isHit draftRawService demoLib demoFlags (initState draftRawService 1 []) ''c/a.md'' []
 \<and> (\<exists>st'. worker draftRawService demoLib demoFlags False (initState draftRawService 1 [])
              (0, ''c/a.md'', []) = Inr (ExitDraft, st')
         \<and> destFs st' ''o/a.md''
              = Some \<lparr>nIsDir = False, nModTime = seconds 200, nContent = ''Draft''\<rparr>
         \<and> renderQueue st' = [zeroRenderContext]
         \<and> indexedPosts st' = [zeroIndexedPost]
         \<and> cardTasks st' = []
         \<and> allMetadataMap st' = []
         \<and> newPostsMeta st' = [])"
proof -
  have raw: "RawMarkdown (cfg draftRawService)" by code_simp
  have md: "mdDestPathOf demoLib (destPath (derivePaths draftRawService demoLib ''c/a.md'' []))
              = ''o/a.md''"
    by code_simp
  have ok: "WriteFileOk draftRawService ''o/a.md''" by code_simp
  have miss: "\<not> isHit draftRawService demoLib demoFlags (initState draftRawService 1 [])
                ''c/a.md'' []"
    by code_simp
  have "case worker draftRawService demoLib demoFlags False (initState draftRawService 1 [])
            (0, ''c/a.md'', []) of Inl e \<Rightarrow> False | Inr r \<Rightarrow> fst r = ExitDraft"
    by code_simp
  then obtain st' where w: "worker draftRawService demoLib demoFlags False
      (initState draftRawService 1 []) (0, ''c/a.md'', []) = Inr (ExitDraft, st')"
    by (auto split: sum.splits)
  have src: "srcReadFile draftRawService ''c/a.md'' = Some ''Draft''"
    by (simp add: draftRawService_def)
  have nw: "now draftRawService = seconds 200"
    by (simp add: draftRawService_def demoService_def)
  have ok': "WriteFileOk draftRawService
      (mdDestPathOf demoLib (destPath (derivePaths draftRawService demoLib ''c/a.md'' [])))"
    using ok md by simp
  have ns: "ExitDraft \<noteq> ExitOversize" by simp
  show ?thesis
    using C10_raw_markdown_before_draft_gate [OF raw ok' miss w ns] raw ok miss w md src nw
    by (simp add: initState_def)
qed

end
